theory Spec2Isabelle
  imports Main
begin

section \<open>The in-memory cache store\<close>

text \<open>
  \<^verbatim>\<open>type CacheStore = Map<string, { value: string; expires: number }>\<close>.
  An entry carries its serialized payload and the epoch-millisecond instant at which it
  expires. The store is a finite map from keys to entries. \<^verbatim>\<open>Date.now()\<close> is passed to
  every operation as an explicit argument; the mutation of the store is returned as the
  new store.
\<close>

record entry =
  payload :: string
  expires :: int

type_synonym CacheStore = "string \<rightharpoonup> entry"

text \<open>
  \<^verbatim>\<open>
  async get(key) {
    const entry = store.get(key);
    if (!entry) return null;
    if (Date.now() > entry.expires) { store.delete(key); return null; }
    return entry.value;
  }\<close>
  The result is the returned string (\<open>None\<close> for \<^verbatim>\<open>null\<close>) and the store afterwards.
\<close>

definition get :: "CacheStore \<Rightarrow> int \<Rightarrow> string \<Rightarrow> string option \<times> CacheStore" where
  "get store now key =
     (case store key of
        None \<Rightarrow> (None, store)
      | Some e \<Rightarrow>
          if now > expires e then (None, store(key := None))
          else (Some (payload e), store))"

text \<open>
  \<^verbatim>\<open>
  async setEx(key, ttl, value) {
    store.set(key, { value, expires: Date.now() + ttl * 1000 });
  }\<close>
\<close>

definition setEx :: "CacheStore \<Rightarrow> int \<Rightarrow> string \<Rightarrow> int \<Rightarrow> string \<Rightarrow> CacheStore" where
  "setEx store now key ttl v = store(key \<mapsto> \<lparr>payload = v, expires = now + ttl * 1000\<rparr>)"

section \<open>The multi-provider fetch chain\<close>

text \<open>
  \<^verbatim>\<open>fetchNewsTool.execute\<close> issues up to three requests. Everything the network
  answers is an input of the model: an awaited request either rejects (the \<^verbatim>\<open>await\<close>
  throws inside its \<^verbatim>\<open>try\<close> block) or fulfils with the decoded body. The body is
  taken at the type the source gives it with \<^verbatim>\<open>as\<close>. The cast checks nothing at run
  time: a body that carries the success signal but whose \<^verbatim>\<open>articles\<close> cannot be
  mapped over (not an array, or an array with a \<^verbatim>\<open>null\<close> element) makes
  \<^verbatim>\<open>data.articles.map\<close> throw inside the same \<^verbatim>\<open>try\<close> block, so such a reply is
  one more way for the block to throw, and \<open>Rejected\<close> stands for it as well.
\<close>

datatype 'a settled = Rejected | Fulfilled 'a

text \<open>
  A statement of the function body completes in one of three ways, as in the language
  definition: it throws, it executes a \<^verbatim>\<open>return\<close>, or it runs to its end.
\<close>

datatype 'a completion = Thrown | Returned 'a | Normal

record NewsArticle =
  title :: string
  description :: "string option"
  content :: "string option"
  url :: string
  source :: string
  publishedAt :: string
  author :: "string option"

text \<open>
  An element of the \<^verbatim>\<open>articles\<close> array of a provider's reply (typed \<^verbatim>\<open>any\<close> in
  the source): every field the code reads may be missing. \<open>api_source_name\<close> is
  \<^verbatim>\<open>article.source?.name\<close>.
\<close>

record api_article =
  api_title :: "string option"
  api_description :: "string option"
  api_content :: "string option"
  api_url :: "string option"
  api_source_name :: "string option"
  api_publishedAt :: "string option"
  api_author :: "string option"

text \<open>
  \<^verbatim>\<open>data as { status: string; articles: any[]; totalResults: number }\<close> and
  \<^verbatim>\<open>data as { articles?: any[]; totalArticles?: number }\<close>.
\<close>

record newsapi_data =
  status :: string
  newsapi_articles :: "api_article list"
  totalResults :: int

record gnews_data =
  gnews_articles :: "api_article list option"
  totalArticles :: "int option"

text \<open>The tool's output: \<^verbatim>\<open>{ articles, totalResults, query }\<close>.\<close>

record fetch_result =
  articles :: "NewsArticle list"
  total :: int
  query :: string

text \<open>\<^verbatim>\<open>process.env.NEWSAPI_KEY\<close> and \<^verbatim>\<open>process.env.GNEWS_KEY\<close>.\<close>

record env =
  NEWSAPI_KEY :: "string option"
  GNEWS_KEY :: "string option"

text \<open>
  The outside world as the function sees it: the reply of each endpoint to the request
  parameters the code sends (query, page size, key), and the string that
  \<^verbatim>\<open>new Date().toISOString()\<close> yields during the call.
\<close>

record world =
  newsapi_everything :: "string \<Rightarrow> int \<Rightarrow> string \<Rightarrow> newsapi_data settled"
  gnews_search :: "string \<Rightarrow> int \<Rightarrow> string \<Rightarrow> gnews_data settled"
  google_news_rss :: "string \<Rightarrow> string settled"
  nowISO :: string

datatype provider = NewsAPI | GNews | GoogleNewsRSS

text \<open>
  JavaScript truthiness of an optional string, and the two idioms \<^verbatim>\<open>x || d\<close>
  and \<^verbatim>\<open>x || null\<close>: a missing and an empty string are both falsy.
\<close>

definition truthy :: "string option \<Rightarrow> bool" where
  "truthy x = (case x of None \<Rightarrow> False | Some s \<Rightarrow> s \<noteq> [])"

definition or_else :: "string option \<Rightarrow> string \<Rightarrow> string" where
  "or_else x d = (case x of None \<Rightarrow> d | Some s \<Rightarrow> if s = [] then d else s)"

definition or_null :: "string option \<Rightarrow> string option" where
  "or_null x = (case x of None \<Rightarrow> None | Some s \<Rightarrow> if s = [] then None else Some s)"

definition normalize_newsapi :: "string \<Rightarrow> api_article \<Rightarrow> NewsArticle" where
  "normalize_newsapi stamp a =
     \<lparr>title = or_else (api_title a) [],
      description = or_null (api_description a),
      content = or_null (api_content a),
      url = or_else (api_url a) [],
      source = or_else (api_source_name a) ''Unknown'',
      publishedAt = or_else (api_publishedAt a) stamp,
      author = or_null (api_author a)\<rparr>"

definition normalize_gnews :: "string \<Rightarrow> api_article \<Rightarrow> NewsArticle" where
  "normalize_gnews stamp a =
     \<lparr>title = or_else (api_title a) [],
      description = or_null (api_description a),
      content = or_null (api_content a),
      url = or_else (api_url a) [],
      source = or_else (api_source_name a) ''Unknown'',
      publishedAt = or_else (api_publishedAt a) stamp,
      author = None\<rparr>"

subsection \<open>The syndication feed\<close>

text \<open>
  The feed is read with regular expressions. Each of them is a literal opening text, a
  lazily matched run, and a literal closing text, so a match is found by searching for
  the first occurrence of the closing text after the opening one. \<open>split_on pat s\<close>
  yields the text before and after the first occurrence of \<open>pat\<close> in \<open>s\<close>.
\<close>

definition starts_with :: "string \<Rightarrow> string \<Rightarrow> bool" where
  "starts_with pat s = (take (length pat) s = pat)"

fun split_on :: "string \<Rightarrow> string \<Rightarrow> (string \<times> string) option" where
  "split_on pat [] = (if pat = [] then Some ([], []) else None)"
| "split_on pat (c # cs) =
     (if starts_with pat (c # cs) then Some ([], drop (length pat) (c # cs))
      else (case split_on pat cs of
              None \<Rightarrow> None
            | Some (before, after) \<Rightarrow> Some (c # before, after)))"

text \<open>
  \<^verbatim>\<open>itemRegex = /<item>([\s\S]*?)<\/item>/g\<close>, one call of \<^verbatim>\<open>exec\<close>. The
  regular expression object remembers in \<^verbatim>\<open>lastIndex\<close> where the previous match
  ended; the model carries the unread rest of the text instead. The result is the
  captured group and the rest after the match.
\<close>

definition exec_item :: "string \<Rightarrow> (string \<times> string) option" where
  "exec_item rest =
     (case split_on ''<item>'' rest of
        None \<Rightarrow> None
      | Some (skipped, opened) \<Rightarrow> split_on ''</item>'' opened)"

text \<open>
  The dot of a regular expression matches every character but a line terminator. Of
  the four line terminators, line feed and carriage return are characters of the
  8-bit \<open>char\<close>; U+2028 and U+2029 have no counterpart in this string type.
\<close>

definition line_terminator :: "char \<Rightarrow> bool" where
  "line_terminator c = (c = CHR 0x0A \<or> c = CHR 0x0D)"

text \<open>
  \<open>lazy_dots close s\<close> matches \<^verbatim>\<open>(.*?)\<close> followed by the literal \<open>close\<close> at the
  start of \<open>s\<close> and yields the capture.
\<close>

definition lazy_dots :: "string \<Rightarrow> string \<Rightarrow> string option" where
  "lazy_dots close s =
     (case split_on close s of
        None \<Rightarrow> None
      | Some (cap, after) \<Rightarrow> if list_ex line_terminator cap then None else Some cap)"

definition enclosed_at :: "string \<Rightarrow> string \<Rightarrow> string \<Rightarrow> string option" where
  "enclosed_at opn close s =
     (if starts_with opn s then lazy_dots close (drop (length opn) s) else None)"

text \<open>
  \<^verbatim>\<open>titleRegex = /<title><!\[CDATA\[(.*?)\]\]><\/title>|<title>(.*?)<\/title>/\<close>:
  at each position the first alternative is tried before the second, and the leftmost
  position with a match wins. The result is \<^verbatim>\<open>m[1]\<close> or, when the second
  alternative matched, \<^verbatim>\<open>m[2]\<close>.
\<close>

fun match_title :: "string \<Rightarrow> string option" where
  "match_title [] = None"
| "match_title (c # cs) =
     (case enclosed_at ''<title><![CDATA['' '']]></title>'' (c # cs) of
        Some cap \<Rightarrow> Some cap
      | None \<Rightarrow>
          (case enclosed_at ''<title>'' ''</title>'' (c # cs) of
             Some cap \<Rightarrow> Some cap
           | None \<Rightarrow> match_title cs))"

text \<open>
  \<^verbatim>\<open>linkRegex = /<link>(.*?)<\/link>/\<close> and
  \<^verbatim>\<open>pubDateRegex = /<pubDate>(.*?)<\/pubDate>/\<close>.
\<close>

fun match_enclosed :: "string \<Rightarrow> string \<Rightarrow> string \<Rightarrow> string option" where
  "match_enclosed opn close [] = None"
| "match_enclosed opn close (c # cs) =
     (case enclosed_at opn close (c # cs) of
        Some cap \<Rightarrow> Some cap
      | None \<Rightarrow> match_enclosed opn close cs)"

text \<open>
  \<^verbatim>\<open>sourceRegex = /<source[^>]*>(.*?)<\/source>/\<close>: the greedy run of characters
  other than \<^verbatim>\<open>>\<close> ends at the first \<^verbatim>\<open>>\<close> after the tag name.
\<close>

definition source_at :: "string \<Rightarrow> string option" where
  "source_at s =
     (if starts_with ''<source'' s then
        (case split_on ''>'' (drop (length ''<source'') s) of
           None \<Rightarrow> None
         | Some (attrs, body) \<Rightarrow> lazy_dots ''</source>'' body)
      else None)"

fun match_source :: "string \<Rightarrow> string option" where
  "match_source [] = None"
| "match_source (c # cs) =
     (case source_at (c # cs) of
        Some cap \<Rightarrow> Some cap
      | None \<Rightarrow> match_source cs)"

text \<open>
  The body of the loop: the four extractions with their defaults, the object literal
  that is pushed, and the test \<^verbatim>\<open>if (title && url)\<close> that decides whether it is
  pushed.
\<close>

definition item_title :: "string \<Rightarrow> string" where
  "item_title itemContent = or_else (match_title itemContent) []"

definition item_url :: "string \<Rightarrow> string" where
  "item_url itemContent = or_else (match_enclosed ''<link>'' ''</link>'' itemContent) []"

definition item_fields :: "string \<Rightarrow> string \<Rightarrow> NewsArticle" where
  "item_fields stamp itemContent =
     \<lparr>title = item_title itemContent,
      description = None,
      content = None,
      url = item_url itemContent,
      source = or_else (match_source itemContent) ''Google News'',
      publishedAt = or_else (match_enclosed ''<pubDate>'' ''</pubDate>'' itemContent) stamp,
      author = None\<rparr>"

definition item_article :: "string \<Rightarrow> string \<Rightarrow> NewsArticle option" where
  "item_article stamp itemContent =
     (if item_title itemContent \<noteq> [] \<and> item_url itemContent \<noteq> []
      then Some (item_fields stamp itemContent) else None)"

text \<open>
  \<^verbatim>\<open>
  let match; let count = 0;
  while ((match = itemRegex.exec(xmlText)) !== null && count < maxArticles) {
    ...
    if (title && url) { articles.push({...}); count++; }
  }\<close>
  The loop state is the unread rest of the text, \<open>count\<close> and the articles pushed so
  far; \<open>maxArticles\<close>, a number of articles, is an integer. Every match of \<open>exec_item\<close>
  consumes at least the two tags, which is the termination argument.
\<close>

function rss_loop :: "string \<Rightarrow> int \<Rightarrow> string \<Rightarrow> nat \<Rightarrow> NewsArticle list \<Rightarrow> NewsArticle list" where
  "rss_loop stamp maxArticles rest count acc =
     (case exec_item rest of
        None \<Rightarrow> acc
      | Some (itemContent, rest') \<Rightarrow>
          if int count < maxArticles then
            (case item_article stamp itemContent of
               Some a \<Rightarrow> rss_loop stamp maxArticles rest' (Suc count) (acc @ [a])
             | None \<Rightarrow> rss_loop stamp maxArticles rest' count acc)
          else acc)"
  by pat_completeness auto
termination
proof -
  have shorter: "length after \<le> length s" if "split_on pat s = Some (before, after)"
    for pat s before after
    using that
    by (induction s arbitrary: before) (auto split: if_splits option.splits)
  have consumed: "length after < length s"
    if "split_on pat s = Some (before, after)" "pat \<noteq> []" for pat s before after
    using that
  proof (induction s arbitrary: before)
    case Nil
    then show ?case by simp
  next
    case (Cons c cs)
    then show ?case
      by (cases pat) (auto split: if_splits option.splits)
  qed
  have step: "length rest' < length rest" if "exec_item rest = Some (c, rest')" for rest c rest'
  proof -
    from that obtain skipped opened where
      a: "split_on ''<item>'' rest = Some (skipped, opened)" and
      b: "split_on ''</item>'' opened = Some (c, rest')"
      by (auto simp: exec_item_def split: option.splits)
    from shorter [OF a] consumed [OF b] show ?thesis by simp
  qed
  show ?thesis
    by (relation "measure (\<lambda>(stamp, maxArticles, rest, count, acc). length rest)")
       (auto dest: step)
qed


declare rss_loop.simps [simp del]

subsection \<open>The chain\<close>

text \<open>
  A \<^verbatim>\<open>try { ... } catch (error) { console.error(...) }\<close> turns a throw of its block into
  a normal completion. Statements in sequence: the second runs only when the first
  completed normally. Each block also reports which providers it sent a request to.
\<close>

definition try_catch :: "'a completion \<Rightarrow> 'a completion" where
  "try_catch c = (case c of Thrown \<Rightarrow> Normal | Returned r \<Rightarrow> Returned r | Normal \<Rightarrow> Normal)"

definition seq :: "'a completion \<times> provider list \<Rightarrow> 'a completion \<times> provider list
                    \<Rightarrow> 'a completion \<times> provider list" where
  "seq a b = (case fst a of Normal \<Rightarrow> (fst b, snd a @ snd b) | Thrown \<Rightarrow> a | Returned r \<Rightarrow> a)"

text \<open>
  Option 1: NewsAPI, lines 107 to 140 of the tool. \<open>newsapi_result\<close> is the object
  returned at line 131.
\<close>

definition newsapi_result :: "world \<Rightarrow> string \<Rightarrow> newsapi_data \<Rightarrow> fetch_result" where
  "newsapi_result w topic d =
     \<lparr>articles = map (normalize_newsapi (nowISO w)) (newsapi_articles d),
      total = totalResults d,
      query = topic\<rparr>"

definition option1 :: "env \<Rightarrow> world \<Rightarrow> string \<Rightarrow> int \<Rightarrow> fetch_result completion \<times> provider list" where
  "option1 e w topic maxArticles =
     (case NEWSAPI_KEY e of
        None \<Rightarrow> (Normal, [])
      | Some newsApiKey \<Rightarrow>
          if newsApiKey = [] then (Normal, [])
          else
            (try_catch
               (case newsapi_everything w topic maxArticles newsApiKey of
                  Rejected \<Rightarrow> Thrown
                | Fulfilled d \<Rightarrow>
                    if status d = ''ok'' then Returned (newsapi_result w topic d) else Normal),
             [NewsAPI]))"

text \<open>
  Option 2: GNews, lines 143 to 175. \<open>gnews_result\<close> is the object returned at line
  166; in \<^verbatim>\<open>data.totalArticles || articles.length\<close> a missing and a zero count both
  give the length.
\<close>

definition gnews_result :: "world \<Rightarrow> string \<Rightarrow> gnews_data \<Rightarrow> api_article list \<Rightarrow> fetch_result" where
  "gnews_result w topic d raw =
     \<lparr>articles = map (normalize_gnews (nowISO w)) raw,
      total = (case totalArticles d of
                 None \<Rightarrow> int (length raw)
               | Some n \<Rightarrow> if n = 0 then int (length raw) else n),
      query = topic\<rparr>"

definition option2 :: "env \<Rightarrow> world \<Rightarrow> string \<Rightarrow> int \<Rightarrow> fetch_result completion \<times> provider list" where
  "option2 e w topic maxArticles =
     (case GNEWS_KEY e of
        None \<Rightarrow> (Normal, [])
      | Some gnewsKey \<Rightarrow>
          if gnewsKey = [] then (Normal, [])
          else
            (try_catch
               (case gnews_search w topic maxArticles gnewsKey of
                  Rejected \<Rightarrow> Thrown
                | Fulfilled d \<Rightarrow>
                    (case gnews_articles d of
                       None \<Rightarrow> Normal
                     | Some raw \<Rightarrow> Returned (gnews_result w topic d raw))),
             [GNews]))"

text \<open>
  Option 3: the Google News feed, lines 178 to 227; no key is needed. \<open>rss_result\<close>
  is the object returned at line 220.
\<close>

definition rss_result :: "world \<Rightarrow> string \<Rightarrow> int \<Rightarrow> string \<Rightarrow> fetch_result" where
  "rss_result w topic maxArticles xmlText =
     (let found = rss_loop (nowISO w) maxArticles xmlText 0 []
      in \<lparr>articles = found, total = int (length found), query = topic\<rparr>)"

definition option3 :: "world \<Rightarrow> string \<Rightarrow> int \<Rightarrow> fetch_result completion \<times> provider list" where
  "option3 w topic maxArticles =
     (try_catch
        (case google_news_rss w topic of
           Rejected \<Rightarrow> Thrown
         | Fulfilled xmlText \<Rightarrow> Returned (rss_result w topic maxArticles xmlText)),
      [GoogleNewsRSS])"

text \<open>
  The body of \<^verbatim>\<open>execute\<close>: the three options in sequence and the final
  \<^verbatim>\<open>return { articles: [], totalResults: 0, query: topic }\<close>.
\<close>

definition empty_result :: "string \<Rightarrow> fetch_result" where
  "empty_result topic = \<lparr>articles = [], total = 0, query = topic\<rparr>"

definition execute :: "env \<Rightarrow> world \<Rightarrow> string \<Rightarrow> int \<Rightarrow> fetch_result completion \<times> provider list" where
  "execute e w topic maxArticles =
     seq (option1 e w topic maxArticles)
       (seq (option2 e w topic maxArticles)
          (seq (option3 w topic maxArticles)
             (Returned (empty_result topic), [])))"

subsection \<open>Sample replies and feeds\<close>






text \<open>Every request fails.\<close>

definition down_world :: world where
  "down_world =
     \<lparr>newsapi_everything = (\<lambda>q n k. Rejected),
      gnews_search = (\<lambda>q n k. Rejected),
      google_news_rss = (\<lambda>q. Rejected),
      nowISO = ''2025-01-01T00:00:00.000Z''\<rparr>"

section \<open>The daily scheduler\<close>

subsection \<open>Time values of \<^verbatim>\<open>Date\<close>\<close>

text \<open>
  The scheduler computes with \<^verbatim>\<open>Date\<close>. A time value is a number of milliseconds since
  the epoch; all numbers that occur are integers far below \<open>2\<^sup>5\<^sup>3\<close>, so the arithmetic
  on them is exact and they are modelled as \<open>int\<close>. \<^verbatim>\<open>NaN\<close>, the value of an invalid
  date, is \<open>None\<close>. The functions below are those of the language definition (section
  "Date Objects"), under their names there.
\<close>

definition msPerDay :: int where "msPerDay = 86400000"
definition msPerHour :: int where "msPerHour = 3600000"
definition msPerMinute :: int where "msPerMinute = 60000"

definition Day :: "int \<Rightarrow> int" where
  "Day t = t div msPerDay"


definition DaysInYear :: "int \<Rightarrow> int" where
  "DaysInYear y =
     (if y mod 4 \<noteq> 0 then 365
      else if y mod 100 \<noteq> 0 then 366
      else if y mod 400 \<noteq> 0 then 365
      else 366)"

definition DayFromYear :: "int \<Rightarrow> int" where
  "DayFromYear y =
     365 * (y - 1970) + (y - 1969) div 4 - (y - 1901) div 100 + (y - 1601) div 400"

text \<open>
  \<open>YearFromTime t\<close> is the largest year \<open>y\<close> with \<open>DayFromYear y \<le> Day t\<close>. It is
  computed from the estimate that a year has 146097/400 days, which is off by one year at
  most (lemma \<open>YearFromDay_brackets\<close> below).
\<close>

definition YearFromDay :: "int \<Rightarrow> int" where
  "YearFromDay d =
     (let y = 1970 + (d * 400) div 146097
      in if d < DayFromYear y then y - 1
         else if DayFromYear (y + 1) \<le> d then y + 1
         else y)"

definition YearFromTime :: "int \<Rightarrow> int" where
  "YearFromTime t = YearFromDay (Day t)"

definition InLeapYear :: "int \<Rightarrow> int" where
  "InLeapYear t = (if DaysInYear (YearFromTime t) = 366 then 1 else 0)"

definition DayWithinYear :: "int \<Rightarrow> int" where
  "DayWithinYear t = Day t - DayFromYear (YearFromTime t)"

definition MonthFromTime :: "int \<Rightarrow> int" where
  "MonthFromTime t =
     (let d = DayWithinYear t; l = InLeapYear t
      in if d < 31 then 0
         else if d < 59 + l then 1
         else if d < 90 + l then 2
         else if d < 120 + l then 3
         else if d < 151 + l then 4
         else if d < 181 + l then 5
         else if d < 212 + l then 6
         else if d < 243 + l then 7
         else if d < 273 + l then 8
         else if d < 304 + l then 9
         else if d < 334 + l then 10
         else 11)"

definition DateFromTime :: "int \<Rightarrow> int" where
  "DateFromTime t =
     (let d = DayWithinYear t; l = InLeapYear t; m = MonthFromTime t
      in if m = 0 then d + 1
         else if m = 1 then d - 30
         else if m = 2 then d - 58 - l
         else if m = 3 then d - 89 - l
         else if m = 4 then d - 119 - l
         else if m = 5 then d - 150 - l
         else if m = 6 then d - 180 - l
         else if m = 7 then d - 211 - l
         else if m = 8 then d - 242 - l
         else if m = 9 then d - 272 - l
         else if m = 10 then d - 303 - l
         else d - 333 - l)"

definition HourFromTime :: "int \<Rightarrow> int" where
  "HourFromTime t = (t div msPerHour) mod 24"

definition MinFromTime :: "int \<Rightarrow> int" where
  "MinFromTime t = (t div msPerMinute) mod 60"

definition MakeTime :: "int \<Rightarrow> int \<Rightarrow> int \<Rightarrow> int \<Rightarrow> int" where
  "MakeTime h m s milli = h * msPerHour + m * msPerMinute + s * 1000 + milli"

text \<open>
  \<open>MakeDay\<close> finds the day number of the first of month \<open>mn\<close> in year \<open>ym\<close> and adds the
  date; a month or a date out of range carries over. \<open>days_before_month\<close> is the number
  of days of the year before the month, \<open>l\<close> being 1 in a leap year.
\<close>

definition days_before_month :: "int \<Rightarrow> int \<Rightarrow> int" where
  "days_before_month mn l =
     (if mn = 0 then 0
      else if mn = 1 then 31
      else if mn = 2 then 59 + l
      else if mn = 3 then 90 + l
      else if mn = 4 then 120 + l
      else if mn = 5 then 151 + l
      else if mn = 6 then 181 + l
      else if mn = 7 then 212 + l
      else if mn = 8 then 243 + l
      else if mn = 9 then 273 + l
      else if mn = 10 then 304 + l
      else 334 + l)"

definition MakeDay :: "int \<Rightarrow> int \<Rightarrow> int \<Rightarrow> int" where
  "MakeDay yr mon dt =
     (let ym = yr + mon div 12;
          mn = mon mod 12;
          l = (if DaysInYear ym = 366 then 1 else 0)
      in DayFromYear ym + days_before_month mn l + dt - 1)"

definition MakeDate :: "int \<Rightarrow> int \<Rightarrow> int" where
  "MakeDate dy tm = dy * msPerDay + tm"

definition TimeClip :: "int \<Rightarrow> int option" where
  "TimeClip tv = (if \<bar>tv\<bar> > 8640000000000000 then None else Some tv)"

text \<open>
  \<^verbatim>\<open>Date.UTC(year, month, date, hours, minutes, seconds, ms)\<close>; a year from 0 to 99
  stands for 1900 plus that year.
\<close>

definition Date_UTC :: "int \<Rightarrow> int \<Rightarrow> int \<Rightarrow> int \<Rightarrow> int \<Rightarrow> int \<Rightarrow> int \<Rightarrow> int option" where
  "Date_UTC y m dt h mi s milli =
     (let yr = (if 0 \<le> y \<and> y \<le> 99 then 1900 + y else y)
      in TimeClip (MakeDate (MakeDay yr m dt) (MakeTime h mi s milli)))"

subsection \<open>The next run\<close>

definition PHT_OFFSET_HOURS :: int where "PHT_OFFSET_HOURS = 8"
definition SCHEDULED_HOUR :: int where "SCHEDULED_HOUR = 3"
definition SCHEDULED_MINUTE :: int where "SCHEDULED_MINUTE = 0"

record components =
  year :: int
  month :: int
  day :: int
  hour :: int
  minute :: int

text \<open>
  \<^verbatim>\<open>
  function getPhilippinesTimeComponents() {
    const now = new Date();
    const phtTimestamp = now.getTime() + (PHT_OFFSET_HOURS * 60 * 60 * 1000);
    const phtDate = new Date(phtTimestamp);
    return { year: phtDate.getUTCFullYear(), month: phtDate.getUTCMonth(),
             day: phtDate.getUTCDate(), hour: phtDate.getUTCHours(),
             minute: phtDate.getUTCMinutes() };
  }\<close>
  \<open>now\<close> is the time value of \<^verbatim>\<open>new Date()\<close>. When \<open>phtDate\<close> is invalid all five
  fields are \<^verbatim>\<open>NaN\<close>: the result is \<open>None\<close>.
\<close>

definition getPhilippinesTimeComponents :: "int \<Rightarrow> components option" where
  "getPhilippinesTimeComponents now =
     (let phtTimestamp = now + PHT_OFFSET_HOURS * 60 * 60 * 1000
      in case TimeClip phtTimestamp of
           None \<Rightarrow> None
         | Some phtDate \<Rightarrow>
             Some \<lparr>year = YearFromTime phtDate,
                   month = MonthFromTime phtDate,
                   day = DateFromTime phtDate,
                   hour = HourFromTime phtDate,
                   minute = MinFromTime phtDate\<rparr>)"

text \<open>
  \<^verbatim>\<open>
  function getMillisecondsUntilNextRun() {
    const now = new Date();
    const pht = getPhilippinesTimeComponents();
    let targetYear = pht.year; let targetMonth = pht.month; let targetDay = pht.day;
    if (pht.hour >= SCHEDULED_HOUR ||
        (pht.hour === SCHEDULED_HOUR && pht.minute >= SCHEDULED_MINUTE)) {
      const tempDate = new Date(Date.UTC(targetYear, targetMonth, targetDay + 1));
      targetYear = tempDate.getUTCFullYear();
      targetMonth = tempDate.getUTCMonth();
      targetDay = tempDate.getUTCDate();
    }
    const targetPHTasUTC = Date.UTC(targetYear, targetMonth, targetDay,
                                    SCHEDULED_HOUR, SCHEDULED_MINUTE, 0, 0);
    const targetUTC = targetPHTasUTC - (PHT_OFFSET_HOURS * 60 * 60 * 1000);
    return targetUTC - now.getTime();
  }\<close>
  The function reads the clock twice: \<open>now\<close> is the time value of the
  \<^verbatim>\<open>new Date()\<close> of its first line, from which the result is counted, and
  \<open>pht_now\<close> is the time value of the \<^verbatim>\<open>new Date()\<close> inside
  \<^verbatim>\<open>getPhilippinesTimeComponents\<close>, from which the target day is chosen. The
  clock may have moved on between the two. A \<^verbatim>\<open>NaN\<close> anywhere makes the result
  \<^verbatim>\<open>NaN\<close>, that is \<open>None\<close>.
\<close>

definition getMillisecondsUntilNextRun :: "int \<Rightarrow> int \<Rightarrow> int option" where
  "getMillisecondsUntilNextRun now pht_now =
     (case getPhilippinesTimeComponents pht_now of
        None \<Rightarrow> None
      | Some pht \<Rightarrow>
          (case (if hour pht \<ge> SCHEDULED_HOUR
                    \<or> (hour pht = SCHEDULED_HOUR \<and> minute pht \<ge> SCHEDULED_MINUTE)
                 then (case Date_UTC (year pht) (month pht) (day pht + 1) 0 0 0 0 of
                         None \<Rightarrow> None
                       | Some tempDate \<Rightarrow>
                           Some (YearFromTime tempDate, MonthFromTime tempDate,
                                 DateFromTime tempDate))
                 else Some (year pht, month pht, day pht)) of
             None \<Rightarrow> None
           | Some (targetYear, targetMonth, targetDay) \<Rightarrow>
               (case Date_UTC targetYear targetMonth targetDay
                       SCHEDULED_HOUR SCHEDULED_MINUTE 0 0 of
                  None \<Rightarrow> None
                | Some targetPHTasUTC \<Rightarrow>
                    (let targetUTC = targetPHTasUTC - PHT_OFFSET_HOURS * 60 * 60 * 1000
                     in Some (targetUTC - now)))))"

subsection \<open>Timers and the running flag\<close>

text \<open>
  \<^verbatim>\<open>let schedulerTimeout: Timer | null = null; let isRunning = false;\<close>
  The two variables of the module are the first two fields of the state. The timers that
  the runtime holds for the process are part of the state as well: \<^verbatim>\<open>setTimeout\<close>
  adds one, with a fresh handle and the delay it was given, and \<^verbatim>\<open>clearTimeout\<close> and
  the firing of a timer remove one. \<open>console_errors\<close> counts the calls of
  \<^verbatim>\<open>console.error("Job failed:", error)\<close>.
\<close>

record timer =
  timer_handle :: nat
  timer_delay :: "int option"

record scheduler =
  schedulerTimeout :: "nat option"
  isRunning :: bool
  pending :: "timer list"
  next_handle :: nat
  console_errors :: nat

definition initial_scheduler :: scheduler where
  "initial_scheduler =
     \<lparr>schedulerTimeout = None, isRunning = False, pending = [], next_handle = 0,
      console_errors = 0\<rparr>"

text \<open>
  \<^verbatim>\<open>
  function scheduleNextRun() {
    const msUntilNextRun = getMillisecondsUntilNextRun();
    ...
    schedulerTimeout = setTimeout(async () => { ... }, msUntilNextRun);
  }\<close>
  \<open>now\<close> and \<open>pht_now\<close> are the two readings of the clock in the call of
  \<^verbatim>\<open>getMillisecondsUntilNextRun\<close>. The lines left out write the time of the next run
  to the log.
\<close>

definition scheduleNextRun :: "int \<Rightarrow> int \<Rightarrow> scheduler \<Rightarrow> scheduler" where
  "scheduleNextRun now pht_now s =
     (let msUntilNextRun = getMillisecondsUntilNextRun now pht_now;
          h = next_handle s
      in s\<lparr>schedulerTimeout := Some h,
            pending := pending s @ [\<lparr>timer_handle = h, timer_delay = msUntilNextRun\<rparr>],
            next_handle := Suc h\<rparr>)"

text \<open>
  The callback of the timer,
  \<^verbatim>\<open>
  async () => {
    if (!isRunning) {
      isRunning = true;
      try { await generateAndSaveLesson(); }
      catch (error) { console.error("Job failed:", error); }
      finally { isRunning = false; scheduleNextRun(); }
    }
  }\<close>
  runs in two parts, before and after the \<^verbatim>\<open>await\<close>: other events of the process can
  happen while the job is in flight. \<open>callback_enter\<close> is the part up to the call of the
  job; \<open>callback_resume\<close> is the part after the job has settled, with the two clock
  readings of its call of \<^verbatim>\<open>scheduleNextRun\<close> and the outcome of the job.
\<close>

datatype job_outcome = Resolved | Threw

definition callback_enter :: "scheduler \<Rightarrow> scheduler" where
  "callback_enter s = (if \<not> isRunning s then s\<lparr>isRunning := True\<rparr> else s)"

definition callback_resume :: "int \<Rightarrow> int \<Rightarrow> job_outcome \<Rightarrow> scheduler \<Rightarrow> scheduler" where
  "callback_resume now pht_now outcome s =
     (let caught = (case outcome of
                      Resolved \<Rightarrow> s
                    | Threw \<Rightarrow> s\<lparr>console_errors := Suc (console_errors s)\<rparr>)
      in scheduleNextRun now pht_now (caught\<lparr>isRunning := False\<rparr>))"

text \<open>
  \<^verbatim>\<open>
  export function stopScheduler() {
    if (schedulerTimeout) { clearTimeout(schedulerTimeout); schedulerTimeout = null; }
  }\<close>
\<close>

definition clearTimeout :: "nat \<Rightarrow> timer list \<Rightarrow> timer list" where
  "clearTimeout h ts = filter (\<lambda>t. timer_handle t \<noteq> h) ts"

definition stopScheduler :: "scheduler \<Rightarrow> scheduler" where
  "stopScheduler s =
     (case schedulerTimeout s of
        None \<Rightarrow> s
      | Some h \<Rightarrow> s\<lparr>pending := clearTimeout h (pending s), schedulerTimeout := None\<rparr>)"

text \<open>
  What can happen to the scheduler: \<^verbatim>\<open>startScheduler\<close> is called (it arms the first
  timer), \<^verbatim>\<open>stopScheduler\<close> is called, a pending timer fires, or the job in flight
  settles. A timer can fire only while it is pending, and a job can settle only while one
  is in flight, which is exactly while \<open>isRunning\<close> is set. \<open>step\<close> is \<open>None\<close> for an
  event that cannot happen in the state. The events that arm a timer carry the two clock
  readings of that call of \<^verbatim>\<open>scheduleNextRun\<close>.
\<close>

datatype event = Start int int | Stop | Fire nat | Settle int int job_outcome

definition step :: "event \<Rightarrow> scheduler \<Rightarrow> scheduler option" where
  "step ev s =
     (case ev of
        Start now pht_now \<Rightarrow> Some (scheduleNextRun now pht_now s)
      | Stop \<Rightarrow> Some (stopScheduler s)
      | Fire h \<Rightarrow>
          if h \<in> timer_handle ` set (pending s)
          then Some (callback_enter (s\<lparr>pending := clearTimeout h (pending s)\<rparr>))
          else None
      | Settle now pht_now outcome \<Rightarrow>
          if isRunning s then Some (callback_resume now pht_now outcome s) else None)"

fun run :: "event list \<Rightarrow> scheduler \<Rightarrow> scheduler option" where
  "run [] s = Some s"
| "run (ev # evs) s = (case step ev s of None \<Rightarrow> None | Some s' \<Rightarrow> run evs s')"

definition reachable :: "scheduler \<Rightarrow> bool" where
  "reachable s = (\<exists>evs. run evs initial_scheduler = Some s)"

text \<open>The three states of the scheduler as the specification names them.\<close>

datatype phase = Idle | Armed | Running

definition phase_of :: "scheduler \<Rightarrow> phase" where
  "phase_of s = (if isRunning s then Running else if pending s \<noteq> [] then Armed else Idle)"

text \<open>
  Handles are handed out in increasing order: no pending timer carries a handle that is
  yet to be handed out.
\<close>

definition handles_fresh :: "scheduler \<Rightarrow> bool" where
  "handles_fresh s = (\<forall>t \<in> set (pending s). timer_handle t < next_handle s)"

text \<open>States along one run: armed at start, running after the timer fired, armed again
  after the job threw.\<close>

definition armed_example :: scheduler where
  "armed_example =
     \<lparr>schedulerTimeout = Some 0, isRunning = False,
      pending = [\<lparr>timer_handle = 0, timer_delay = Some 74800000\<rparr>],
      next_handle = 1, console_errors = 0\<rparr>"

definition running_example :: scheduler where
  "running_example =
     \<lparr>schedulerTimeout = Some 0, isRunning = True, pending = [],
      next_handle = 1, console_errors = 0\<rparr>"

definition rearmed_example :: scheduler where
  "rearmed_example =
     \<lparr>schedulerTimeout = Some 1, isRunning = False,
      pending = [\<lparr>timer_handle = 1, timer_delay = Some 86399500\<rparr>],
      next_handle = 2, console_errors = 1\<rparr>"

section \<open>The token revocation ledger\<close>

subsection \<open>Numbers as decimal strings\<close>

text \<open>
  The time stamps of the ledger are modelled as integers. A number of the language is a
  double: it holds every integer up to \<^verbatim>\<open>Number.MAX_SAFE_INTEGER\<close>, which is
  \<open>2\<^sup>5\<^sup>3 - 1\<close>, in absolute value exactly, and on these integers the product and the
  comparison of the code are those of the integers. Every time value of a \<^verbatim>\<open>Date\<close>
  is among them. The two conversions below are those of the language on safe integers,
  and the statements that rest on them are made for safe integers.
\<close>

definition MAX_SAFE_INTEGER :: int where
  "MAX_SAFE_INTEGER = 9007199254740991"

definition isSafeInteger :: "int \<Rightarrow> bool" where
  "isSafeInteger n = (\<bar>n\<bar> \<le> MAX_SAFE_INTEGER)"

text \<open>
  \<^verbatim>\<open>signUpdate.toString()\<close> of a safe integer is its decimal numeral, with a minus
  sign when it is negative. Beyond the safe integers the language writes the shortest
  numeral that reads back as the same number, and from \<open>10\<^sup>2\<^sup>1\<close> on it writes an
  exponent (\<^verbatim>\<open>1e+21\<close>); the definition does not describe these.
\<close>

definition digit_char :: "nat \<Rightarrow> char" where
  "digit_char d = char_of (48 + d)"

fun digits :: "nat \<Rightarrow> string" where
  "digits n = (if n < 10 then [digit_char n] else digits (n div 10) @ [digit_char (n mod 10)])"

declare digits.simps [simp del]

definition Number_toString :: "int \<Rightarrow> string" where
  "Number_toString i = (if i < 0 then CHR ''-'' # digits (nat (- i)) else digits (nat i))"

text \<open>
  \<^verbatim>\<open>parseInt(string, 10)\<close>: leading white space is skipped, a sign is read, and the
  longest run of decimal digits that follows is the number; without a digit the result is
  \<^verbatim>\<open>NaN\<close> (\<open>None\<close>). The white space characters within the 8-bit \<open>char\<close> are tab,
  line feed, vertical tab, form feed, carriage return, space and no-break space. The
  numeral of a safe integer reads as that integer; the language rounds the value of a
  longer numeral to a number, which the definition does not describe.
\<close>

definition is_digit :: "char \<Rightarrow> bool" where
  "is_digit c = (48 \<le> (of_char c :: nat) \<and> (of_char c :: nat) \<le> 57)"

definition digit_value :: "char \<Rightarrow> nat" where
  "digit_value c = of_char c - 48"

definition is_whitespace :: "char \<Rightarrow> bool" where
  "is_whitespace c = ((of_char c :: nat) \<in> {9, 10, 11, 12, 13, 32, 160})"

definition digits_value :: "string \<Rightarrow> nat" where
  "digits_value ds = foldl (\<lambda>acc c. acc * 10 + digit_value c) 0 ds"

definition parseInt :: "string \<Rightarrow> int option" where
  "parseInt inputString =
     (let s = dropWhile is_whitespace inputString;
          sign = (if s \<noteq> [] \<and> hd s = CHR ''-'' then - 1 else 1);
          s' = (if s \<noteq> [] \<and> (hd s = CHR ''+'' \<or> hd s = CHR ''-'') then tl s else s);
          z = takeWhile is_digit s'
      in if z = [] then None else Some (sign * int (digits_value z)))"

subsection \<open>The cache module\<close>

text \<open>
  \<^verbatim>\<open>let redisClient: RedisClient | null = null; let isConnected = false;\<close>
  A \<^verbatim>\<open>RedisClient\<close> is an object with a store and asynchronous methods. The callers are
  written against that interface and guard every call with \<^verbatim>\<open>try\<close>, so the methods are
  fields of the model's client too: applied to the store, the instant and their arguments,
  they either reject or fulfil with their result and the store afterwards.
\<close>

record RedisClient =
  store :: CacheStore
  get_method :: "CacheStore \<Rightarrow> int \<Rightarrow> string \<Rightarrow> (string option \<times> CacheStore) settled"
  setEx_method :: "CacheStore \<Rightarrow> int \<Rightarrow> string \<Rightarrow> int \<Rightarrow> string \<Rightarrow> CacheStore settled"

record cache_module =
  redisClient :: "RedisClient option"
  isConnected :: bool

text \<open>
  \<^verbatim>\<open>createInMemoryCache\<close>: the client whose methods are the in-memory operations above;
  they never reject. \<^verbatim>\<open>initRedis\<close> installs it.
\<close>

definition createInMemoryCache :: RedisClient where
  "createInMemoryCache =
     \<lparr>store = Map.empty,
      get_method = (\<lambda>st now key. Fulfilled (get st now key)),
      setEx_method = (\<lambda>st now key ttl v. Fulfilled (setEx st now key ttl v))\<rparr>"

definition initRedis :: cache_module where
  "initRedis = \<lparr>redisClient = Some createInMemoryCache, isConnected = True\<rparr>"

definition isRedisConnected :: "cache_module \<Rightarrow> bool" where
  "isRedisConnected m = (isConnected m \<and> redisClient m \<noteq> None)"

text \<open>
  \<^verbatim>\<open>
  export const isTokenBlacklisted = async (tokenId) => {
    if (!isRedisConnected()) { return false; }
    try {
      const key = `token:blacklist:${tokenId}`;
      const result = await redisClient!.get(key);
      return result !== null;
    } catch (error) { console.error(...); return false; }
  };\<close>
  The result is the returned boolean and the module afterwards (a read may evict).
\<close>

definition isTokenBlacklisted :: "cache_module \<Rightarrow> int \<Rightarrow> string \<Rightarrow> bool \<times> cache_module" where
  "isTokenBlacklisted m now tokenId =
     (if \<not> isRedisConnected m then (False, m)
      else
        (case redisClient m of
           None \<Rightarrow> (False, m)
         | Some client \<Rightarrow>
             (let key = ''token:blacklist:'' @ tokenId
              in case get_method client (store client) now key of
                   Rejected \<Rightarrow> (False, m)
                 | Fulfilled (result, st) \<Rightarrow>
                     (result \<noteq> None, m\<lparr>redisClient := Some (client\<lparr>store := st\<rparr>)\<rparr>))))"

text \<open>
  \<^verbatim>\<open>
  export const invalidateUserTokens = async (userId, signUpdate) => {
    if (!isRedisConnected()) { console.warn(...); return; }
    try {
      const key = `user:signUpdate:${userId}`;
      await redisClient!.setEx(key, 86400, signUpdate.toString());
    } catch (error) { console.error(...); }
  };\<close>
\<close>

definition invalidateUserTokens :: "cache_module \<Rightarrow> int \<Rightarrow> string \<Rightarrow> int \<Rightarrow> cache_module" where
  "invalidateUserTokens m now userId signUpdate =
     (if \<not> isRedisConnected m then m
      else
        (case redisClient m of
           None \<Rightarrow> m
         | Some client \<Rightarrow>
             (let key = ''user:signUpdate:'' @ userId
              in case setEx_method client (store client) now key 86400
                        (Number_toString signUpdate) of
                   Rejected \<Rightarrow> m
                 | Fulfilled st \<Rightarrow> m\<lparr>redisClient := Some (client\<lparr>store := st\<rparr>)\<rparr>)))"

text \<open>
  \<^verbatim>\<open>
  export const isTokenInvalidatedBySignUpdate = async (userId, tokenIat) => {
    if (!isRedisConnected()) { return false; }
    try {
      const key = `user:signUpdate:${userId}`;
      const signUpdate = await redisClient!.get(key);
      if (!signUpdate) { return false; }
      const signUpdateMs = parseInt(signUpdate, 10);
      const tokenIatMs = tokenIat * 1000;
      return tokenIatMs < signUpdateMs;
    } catch (error) { console.error(...); return false; }
  };\<close>
  A comparison with \<^verbatim>\<open>NaN\<close> is false.
\<close>

definition isTokenInvalidatedBySignUpdate ::
    "cache_module \<Rightarrow> int \<Rightarrow> string \<Rightarrow> int \<Rightarrow> bool \<times> cache_module" where
  "isTokenInvalidatedBySignUpdate m now userId tokenIat =
     (if \<not> isRedisConnected m then (False, m)
      else
        (case redisClient m of
           None \<Rightarrow> (False, m)
         | Some client \<Rightarrow>
             (let key = ''user:signUpdate:'' @ userId
              in case get_method client (store client) now key of
                   Rejected \<Rightarrow> (False, m)
                 | Fulfilled (signUpdate, st) \<Rightarrow>
                     (let m' = m\<lparr>redisClient := Some (client\<lparr>store := st\<rparr>)\<rparr>
                      in if \<not> truthy signUpdate then (False, m')
                         else
                           (case signUpdate of
                              None \<Rightarrow> (False, m')
                            | Some text \<Rightarrow>
                                (case parseInt text of
                                   None \<Rightarrow> (False, m')
                                 | Some signUpdateMs \<Rightarrow>
                                     (let tokenIatMs = tokenIat * 1000
                                      in (tokenIatMs < signUpdateMs, m'))))))))"

text \<open>A client all of whose calls fail, as one that has lost its server would.\<close>

definition rejecting_client :: RedisClient where
  "rejecting_client =
     \<lparr>store = Map.empty,
      get_method = (\<lambda>st now key. Rejected),
      setEx_method = (\<lambda>st now key ttl v. Rejected)\<rparr>"

text \<open>A connected in-memory cache that holds a cutoff for the user \<^verbatim>\<open>u2\<close>.\<close>

definition recorded_example :: cache_module where
  "recorded_example =
     \<lparr>redisClient =
        Some (createInMemoryCache
               \<lparr>store := Map.empty(''user:signUpdate:u2'' \<mapsto>
                           \<lparr>payload = ''1700000000000'', expires = 90000\<rparr>)\<rparr>),
      isConnected = True\<rparr>"

section \<open>Lists in the cache store\<close>

subsection \<open>JSON values and the JSON library\<close>

text \<open>
  The list operations keep an array as JSON text in an entry and go through
  \<^verbatim>\<open>JSON.parse\<close> and \<^verbatim>\<open>JSON.stringify\<close> on every call. The code looks at a parsed
  value only to ask whether it is an array and to take, extend or cut its elements.
\<close>

datatype json =
    JNull
  | JBool bool
  | JNumber int
  | JString string
  | JArray "json list"
  | JObject "(string \<times> json) list"

text \<open>
  The two functions of the runtime's JSON object are parameters of the model:
  \<open>JSON_parse\<close> yields \<open>None\<close> where \<^verbatim>\<open>JSON.parse\<close> throws a \<^verbatim>\<open>SyntaxError\<close>.
  What is assumed of them is stated where it is used; \<open>round_trip\<close> says that a text
  written by \<open>JSON_stringify\<close> is read back as the value it was written from.
\<close>

record json_lib =
  JSON_parse :: "string \<Rightarrow> json option"
  JSON_stringify :: "json \<Rightarrow> string"

definition round_trip :: "json_lib \<Rightarrow> bool" where
  "round_trip J = (\<forall>j. JSON_parse J (JSON_stringify J j) = Some j)"

datatype js_error = SyntaxError

subsection \<open>The list operations\<close>

text \<open>
  \<^verbatim>\<open>Array.prototype.slice(start, end)\<close>: a negative index counts from the end, and
  both indices are clamped to the array; \<open>None\<close> for the second is the call with one
  argument.
\<close>

definition slice :: "'a list \<Rightarrow> int \<Rightarrow> int option \<Rightarrow> 'a list" where
  "slice xs start finish =
     (let len = int (length xs);
          k = (if start < 0 then max (len + start) 0 else min start len);
          final = (case finish of
                     None \<Rightarrow> len
                   | Some e \<Rightarrow> if e < 0 then max (len + e) 0 else min e len)
      in take (nat (final - k)) (drop (nat k) xs))"

definition thirty_days :: int where
  "thirty_days = 30 * 24 * 60 * 60 * 1000"

text \<open>
  \<^verbatim>\<open>
  async lRange(key, start, stop) {
    const entry = store.get(key);
    if (!entry) return [];
    try {
      const arr = JSON.parse(entry.value) as unknown[];
      if (!Array.isArray(arr)) return [];
      if (stop === -1) return arr.slice(start).map((v) => JSON.stringify(v));
      return arr.slice(start, stop + 1).map((v) => JSON.stringify(v));
    } catch { return []; }
  }\<close>
  The list operations read the entry with \<^verbatim>\<open>store.get\<close> of the map, not with the
  \<^verbatim>\<open>get\<close> of the cache: they do not look at the expiry.
\<close>

definition lRange :: "json_lib \<Rightarrow> CacheStore \<Rightarrow> string \<Rightarrow> int \<Rightarrow> int \<Rightarrow> string list" where
  "lRange J st key start stop =
     (case st key of
        None \<Rightarrow> []
      | Some e \<Rightarrow>
          (case JSON_parse J (payload e) of
             None \<Rightarrow> []
           | Some (JArray arr) \<Rightarrow>
               if stop = - 1 then map (JSON_stringify J) (slice arr start None)
               else map (JSON_stringify J) (slice arr start (Some (stop + 1)))
           | Some other \<Rightarrow> []))"

text \<open>
  \<^verbatim>\<open>
  async rPush(key, value) {
    let entry = store.get(key);
    let arr: unknown[] = [];
    if (entry) {
      try {
        arr = JSON.parse(entry.value) as unknown[];
        if (!Array.isArray(arr)) arr = [];
      } catch { arr = []; }
    }
    arr.push(JSON.parse(value));
    store.set(key, { value: JSON.stringify(arr),
                     expires: Date.now() + 30 * 24 * 60 * 60 * 1000 });
  }\<close>
  \<open>stored_array\<close> is the value of \<open>arr\<close> before the push. The parse of \<open>value\<close> stands
  outside the \<^verbatim>\<open>try\<close>: when it throws, the call throws, before the store is written.
\<close>

definition stored_array :: "json_lib \<Rightarrow> CacheStore \<Rightarrow> string \<Rightarrow> json list" where
  "stored_array J st key =
     (case st key of
        None \<Rightarrow> []
      | Some e \<Rightarrow>
          (case JSON_parse J (payload e) of
             None \<Rightarrow> []
           | Some (JArray arr) \<Rightarrow> arr
           | Some other \<Rightarrow> []))"

definition rPush :: "json_lib \<Rightarrow> CacheStore \<Rightarrow> int \<Rightarrow> string \<Rightarrow> string \<Rightarrow> js_error + CacheStore" where
  "rPush J st now key v =
     (let arr = stored_array J st key
      in case JSON_parse J v of
           None \<Rightarrow> Inl SyntaxError
         | Some parsed \<Rightarrow>
             Inr (st(key \<mapsto> \<lparr>payload = JSON_stringify J (JArray (arr @ [parsed])),
                            expires = now + thirty_days\<rparr>)))"

text \<open>
  \<^verbatim>\<open>
  async lTrim(key, start, stop) {
    const entry = store.get(key);
    if (!entry) return;
    try {
      let arr = JSON.parse(entry.value) as unknown[];
      if (!Array.isArray(arr)) return;
      if (stop === -1) arr = arr.slice(start);
      else arr = arr.slice(start, stop + 1);
      store.set(key, { value: JSON.stringify(arr),
                       expires: Date.now() + 30 * 24 * 60 * 60 * 1000 });
    } catch { }
  }\<close>
\<close>

definition lTrim :: "json_lib \<Rightarrow> CacheStore \<Rightarrow> int \<Rightarrow> string \<Rightarrow> int \<Rightarrow> int \<Rightarrow> CacheStore" where
  "lTrim J st now key start stop =
     (case st key of
        None \<Rightarrow> st
      | Some e \<Rightarrow>
          (case JSON_parse J (payload e) of
             None \<Rightarrow> st
           | Some (JArray arr) \<Rightarrow>
               (let kept = (if stop = - 1 then slice arr start None
                            else slice arr start (Some (stop + 1)))
                in st(key \<mapsto> \<lparr>payload = JSON_stringify J (JArray kept),
                                expires = now + thirty_days\<rparr>))
           | Some other \<Rightarrow> st))"

text \<open>
  The history policy of \<^verbatim>\<open>logRetentionCleanup\<close>: an append followed by
  \<^verbatim>\<open>lTrim(key, -100, -1)\<close>, here for a sequence of appends, each with the instant at
  which it happens. A throwing append ends the sequence.
\<close>

fun append_capped :: "json_lib \<Rightarrow> CacheStore \<Rightarrow> string \<Rightarrow> (int \<times> string) list
                       \<Rightarrow> js_error + CacheStore" where
  "append_capped J st key [] = Inr st"
| "append_capped J st key ((now, v) # later) =
     (case rPush J st now key v of
        Inl err \<Rightarrow> Inl err
      | Inr pushed \<Rightarrow> append_capped J (lTrim J pushed now key (- 100) (- 1)) key later)"

text \<open>The \<open>n\<close> most recent elements of a list that grows at its end.\<close>

definition last_n :: "nat \<Rightarrow> 'a list \<Rightarrow> 'a list" where
  "last_n n xs = drop (length xs - n) xs"

subsection \<open>A JSON library for the examples\<close>

text \<open>
  An instance of the two library functions on which the statements below can be run:
  compact JSON texts as \<^verbatim>\<open>JSON.stringify\<close> writes them, numbers being integers and
  strings escaping the quotation mark and the backslash.
\<close>

fun escape :: "string \<Rightarrow> string" where
  "escape [] = []"
| "escape (c # cs) =
     (if c = CHR 0x22 \<or> c = CHR 0x5C then CHR 0x5C # c # escape cs else c # escape cs)"

definition quote :: "string \<Rightarrow> string" where
  "quote s = CHR 0x22 # escape s @ [CHR 0x22]"

fun write_json :: "json \<Rightarrow> string"
  and write_elements :: "json list \<Rightarrow> string"
  and write_members :: "(string \<times> json) list \<Rightarrow> string" where
  "write_json JNull = ''null''"
| "write_json (JBool b) = (if b then ''true'' else ''false'')"
| "write_json (JNumber i) = Number_toString i"
| "write_json (JString s) = quote s"
| "write_json (JArray []) = ''[]''"
| "write_json (JArray (x # xs)) = CHR ''['' # write_json x @ write_elements xs"
| "write_json (JObject []) = ''{}''"
| "write_json (JObject ((k, v) # ms)) =
     CHR ''{'' # quote k @ CHR '':'' # write_json v @ write_members ms"
| "write_elements [] = '']''"
| "write_elements (x # xs) = CHR '','' # write_json x @ write_elements xs"
| "write_members [] = ''}''"
| "write_members ((k, v) # ms) =
     CHR '','' # quote k @ CHR '':'' # write_json v @ write_members ms"

text \<open>The body of a string, after its opening quotation mark, and what follows it.\<close>

fun read_string :: "string \<Rightarrow> (string \<times> string) option" where
  "read_string [] = None"
| "read_string (c # cs) =
     (if c = CHR 0x22 then Some ([], cs)
      else if c = CHR 0x5C then
        (case cs of
           [] \<Rightarrow> None
         | d # ds \<Rightarrow>
             (case read_string ds of None \<Rightarrow> None | Some (s, r) \<Rightarrow> Some (d # s, r)))
      else (case read_string cs of None \<Rightarrow> None | Some (s, r) \<Rightarrow> Some (c # s, r)))"

definition read_number :: "string \<Rightarrow> (int \<times> string) option" where
  "read_number s =
     (let negative = (s \<noteq> [] \<and> hd s = CHR ''-'');
          body = (if negative then tl s else s);
          ds = takeWhile is_digit body
      in if ds = [] then None
         else Some (if negative then - int (digits_value ds) else int (digits_value ds),
                    dropWhile is_digit body))"

text \<open>
  A member of an object, \<open>rd\<close> reading its value: the key in quotation marks, a colon,
  the value.
\<close>

definition read_member ::
    "(string \<Rightarrow> (json \<times> string) option) \<Rightarrow> string \<Rightarrow> ((string \<times> json) \<times> string) option" where
  "read_member rd s =
     (case s of
        [] \<Rightarrow> None
      | c # cs \<Rightarrow>
          if c = CHR 0x22 then
            (case read_string cs of
               None \<Rightarrow> None
             | Some (k, r) \<Rightarrow>
                 (case r of
                    [] \<Rightarrow> None
                  | d # r' \<Rightarrow>
                      if d = CHR '':'' then
                        (case rd r' of None \<Rightarrow> None | Some (v, r'') \<Rightarrow> Some ((k, v), r''))
                      else None))
          else None)"

text \<open>
  The reader descends along the text; \<open>f\<close> bounds the depth of its calls, and a call
  on a text shorter than \<open>f\<close> never runs out of it.
\<close>

fun read_json :: "nat \<Rightarrow> string \<Rightarrow> (json \<times> string) option"
  and read_elements :: "nat \<Rightarrow> string \<Rightarrow> (json list \<times> string) option"
  and read_members :: "nat \<Rightarrow> string \<Rightarrow> ((string \<times> json) list \<times> string) option" where
  "read_json 0 s = None"
| "read_json (Suc f) s =
     (if starts_with ''null'' s then Some (JNull, drop 4 s)
      else if starts_with ''true'' s then Some (JBool True, drop 4 s)
      else if starts_with ''false'' s then Some (JBool False, drop 5 s)
      else
        (case s of
           [] \<Rightarrow> None
         | c # cs \<Rightarrow>
             if c = CHR 0x22 then
               (case read_string cs of None \<Rightarrow> None | Some (t, r) \<Rightarrow> Some (JString t, r))
             else if c = CHR ''['' then
               (if starts_with '']'' cs then Some (JArray [], drop 1 cs)
                else
                  (case read_json f cs of
                     None \<Rightarrow> None
                   | Some (x, r) \<Rightarrow>
                       (case read_elements f r of
                          None \<Rightarrow> None
                        | Some (xs, r') \<Rightarrow> Some (JArray (x # xs), r'))))
             else if c = CHR ''{'' then
               (if starts_with ''}'' cs then Some (JObject [], drop 1 cs)
                else
                  (case read_member (read_json f) cs of
                     None \<Rightarrow> None
                   | Some (m, r) \<Rightarrow>
                       (case read_members f r of
                          None \<Rightarrow> None
                        | Some (ms, r') \<Rightarrow> Some (JObject (m # ms), r'))))
             else
               (case read_number s of None \<Rightarrow> None | Some (i, r) \<Rightarrow> Some (JNumber i, r))))"
| "read_elements 0 s = None"
| "read_elements (Suc f) s =
     (case s of
        [] \<Rightarrow> None
      | c # cs \<Rightarrow>
          if c = CHR '']'' then Some ([], cs)
          else if c = CHR '','' then
            (case read_json f cs of
               None \<Rightarrow> None
             | Some (x, r) \<Rightarrow>
                 (case read_elements f r of
                    None \<Rightarrow> None
                  | Some (xs, r') \<Rightarrow> Some (x # xs, r')))
          else None)"
| "read_members 0 s = None"
| "read_members (Suc f) s =
     (case s of
        [] \<Rightarrow> None
      | c # cs \<Rightarrow>
          if c = CHR ''}'' then Some ([], cs)
          else if c = CHR '','' then
            (case read_member (read_json f) cs of
               None \<Rightarrow> None
             | Some (m, r) \<Rightarrow>
                 (case read_members f r of
                    None \<Rightarrow> None
                  | Some (ms, r') \<Rightarrow> Some (m # ms, r')))
          else None)"

definition mini_parse :: "string \<Rightarrow> json option" where
  "mini_parse s =
     (case read_json (Suc (length s)) s of
        None \<Rightarrow> None
      | Some (j, r) \<Rightarrow> if r = [] then Some j else None)"

definition mini_json :: json_lib where
  "mini_json = \<lparr>JSON_parse = mini_parse, JSON_stringify = write_json\<rparr>"

declare read_json.simps [simp del] read_elements.simps [simp del] read_members.simps [simp del]

text \<open>
  What may follow a number in a text for the reader to find its end, and the characters
  a written value can start with.
\<close>

definition follow :: "string \<Rightarrow> bool" where
  "follow r = (case r of [] \<Rightarrow> True | c # cs \<Rightarrow> \<not> is_digit c)"

definition value_start :: "char \<Rightarrow> bool" where
  "value_start c =
     (c = CHR ''n'' \<or> c = CHR ''t'' \<or> c = CHR ''f'' \<or> c = CHR 0x22 \<or> c = CHR ''[''
      \<or> c = CHR ''{'' \<or> c = CHR ''-'' \<or> is_digit c)"

subsection \<open>Sample histories\<close>

text \<open>
  A history of 101 entries as \<^verbatim>\<open>logRetentionCleanup\<close> writes them, appended at the
  instants 1 to 101, and a store whose key \<^verbatim>\<open>h\<close> holds the list of the numbers 1 and 2.
\<close>

definition history_key :: string where
  "history_key = ''notifications:cleanup:history''"

definition history_entry :: "nat \<Rightarrow> json" where
  "history_entry n =
     JObject [(''timestamp'', JString ''2025-01-01T03:00:00.000Z''),
              (''deletedCount'', JNumber (int n))]"

definition history_steps :: "(int \<times> string) list" where
  "history_steps = map (\<lambda>n. (int n, write_json (history_entry n))) [1..<102]"

definition two_numbers :: CacheStore where
  "two_numbers = Map.empty(''h'' \<mapsto> \<lparr>payload = ''[1,2]'', expires = 0\<rparr>)"

section \<open>Cache reads and writes\<close>

lemma get_absent: "st key = None \<Longrightarrow> get st now key = (None, st)"
  by (simp add: get_def)

lemma get_live:
  "st key = Some e \<Longrightarrow> now \<le> expires e \<Longrightarrow> get st now key = (Some (payload e), st)"
  by (simp add: get_def)

lemma get_stale:
  "st key = Some e \<Longrightarrow> expires e < now \<Longrightarrow> get st now key = (None, st(key := None))"
  by (simp add: get_def)

text \<open>
  C1, first half as stated and second half at the boundary the code draws. A read that
  follows \<open>setEx\<close> at any instant up to and including the expiry instant returns the
  stored string and leaves the store as \<open>setEx\<close> left it; in particular a read at the
  very instant of the write does, for every positive time to live. A key whose expiry
  instant lies strictly before the instant of the read is reported as a miss and is
  removed from the store by that read; every other key is untouched.
\<close>

theorem C1_set_then_get_and_lazy_eviction:
  "(0 < ttl \<longrightarrow> get (setEx st now k ttl v) now k = (Some v, setEx st now k ttl v))
   \<and> (now \<le> now' \<and> now' \<le> now + ttl * 1000 \<longrightarrow>
        fst (get (setEx st now k ttl v) now' k) = Some v)
   \<and> (st k = Some e \<and> expires e < now \<longrightarrow>
        fst (get st now k) = None
        \<and> snd (get st now k) k = None
        \<and> (\<forall>k'. k' \<noteq> k \<longrightarrow> snd (get st now k) k' = st k'))"
  by (simp add: get_def setEx_def)

theorem C1_witness:
  "get (setEx Map.empty 5000 ''a'' 60 ''x'') 5000 ''a''
     = (Some ''x'', setEx Map.empty 5000 ''a'' 60 ''x'')
   \<and> fst (get (setEx Map.empty 5000 ''a'' 60 ''x'') 65000 ''a'') = Some ''x''
   \<and> fst (get (setEx Map.empty 5000 ''a'' 60 ''x'') 65001 ''a'') = None
   \<and> snd (get (setEx Map.empty 5000 ''a'' 60 ''x'') 65001 ''a'') ''a'' = None"
  using C1_set_then_get_and_lazy_eviction
          [of 60 Map.empty 5000 "''a''" "''x''" 65000
              "\<lparr>payload = ''x'', expires = 65000\<rparr>"]
        C1_set_then_get_and_lazy_eviction
          [of 60 "setEx Map.empty 5000 ''a'' 60 ''x''" 65001 "''a''" "''x''" 65001
              "\<lparr>payload = ''x'', expires = 65000\<rparr>"]
  by (simp add: setEx_def)

text \<open>
  The claim as worded draws the boundary at \<open>expires \<le> now\<close>. The guard of the code is
  \<^verbatim>\<open>Date.now() > entry.expires\<close>: at the expiry instant itself the entry is still
  returned and stays in the store.
\<close>

theorem C1_counterexample:
  "(Map.empty(''a'' \<mapsto> \<lparr>payload = ''x'', expires = 65000\<rparr>)) ''a''
     = Some \<lparr>payload = ''x'', expires = 65000\<rparr>
   \<and> expires \<lparr>payload = ''x'', expires = 65000\<rparr> \<le> 65000
   \<and> fst (get (Map.empty(''a'' \<mapsto> \<lparr>payload = ''x'', expires = 65000\<rparr>)) 65000 ''a'')
       = Some ''x''
   \<and> snd (get (Map.empty(''a'' \<mapsto> \<lparr>payload = ''x'', expires = 65000\<rparr>)) 65000 ''a'') ''a''
       = Some \<lparr>payload = ''x'', expires = 65000\<rparr>"
  by (simp add: get_def)

section \<open>The fetch chain\<close>


lemma option1_trace: "snd (option1 e w topic n) = (if truthy (NEWSAPI_KEY e) then [NewsAPI] else [])"
  by (simp add: option1_def truthy_def split: option.splits)

lemma option2_trace: "snd (option2 e w topic n) = (if truthy (GNEWS_KEY e) then [GNews] else [])"
  by (simp add: option2_def truthy_def split: option.splits)

lemma option3_trace: "snd (option3 w topic n) = [GoogleNewsRSS]"
  by (simp add: option3_def)




lemma option1_completes: "fst (option1 e w topic n) \<noteq> Thrown"
  by (simp add: option1_def try_catch_def split: option.splits settled.splits)

lemma option2_completes: "fst (option2 e w topic n) \<noteq> Thrown"
  by (simp add: option2_def try_catch_def split: option.splits settled.splits)

lemma option3_completes: "fst (option3 w topic n) \<noteq> Thrown"
  by (simp add: option3_def try_catch_def split: settled.splits)

lemma option3_rejected: "google_news_rss w topic = Rejected \<Longrightarrow> fst (option3 w topic n) = Normal"
  by (simp add: option3_def try_catch_def)

text \<open>The trace of a sequence, by the completion of its first part.\<close>

lemma seq_fst: "fst (seq a b) = (if fst a = Normal then fst b else fst a)"
  by (simp add: seq_def split: completion.splits)

lemma seq_snd: "snd (seq a b) = (if fst a = Normal then snd a @ snd b else snd a)"
  by (simp add: seq_def split: completion.splits)

lemma execute_fst:
  "fst (execute e w topic n) =
     (if fst (option1 e w topic n) \<noteq> Normal then fst (option1 e w topic n)
      else if fst (option2 e w topic n) \<noteq> Normal then fst (option2 e w topic n)
      else if fst (option3 w topic n) \<noteq> Normal then fst (option3 w topic n)
      else Returned (empty_result topic))"
  by (simp add: execute_def seq_fst)

lemma execute_snd:
  "snd (execute e w topic n) =
     (if fst (option1 e w topic n) \<noteq> Normal then snd (option1 e w topic n)
      else if fst (option2 e w topic n) \<noteq> Normal
        then snd (option1 e w topic n) @ snd (option2 e w topic n)
      else snd (option1 e w topic n) @ snd (option2 e w topic n) @ [GoogleNewsRSS])"
  by (simp add: execute_def seq_snd seq_fst option3_trace)



text \<open>
  C6. With no key configured and the request for the feed failing, the call returns the
  empty result for the topic, having asked the feed only. And whatever the keys and the
  replies are, the call completes by returning a result: no throw leaves the function.
\<close>

theorem C6_total_failure:
  "(\<not> truthy (NEWSAPI_KEY e) \<and> \<not> truthy (GNEWS_KEY e) \<and> google_news_rss w topic = Rejected
    \<longrightarrow> execute e w topic n
          = (Returned \<lparr>articles = [], total = 0, query = topic\<rparr>, [GoogleNewsRSS]))
   \<and> (\<exists>r. fst (execute e' w' topic' n') = Returned r)"
proof (intro conjI impI)
  assume h: "\<not> truthy (NEWSAPI_KEY e) \<and> \<not> truthy (GNEWS_KEY e) \<and> google_news_rss w topic = Rejected"
  then have "fst (option1 e w topic n) = Normal" "fst (option2 e w topic n) = Normal"
    by (auto simp: option1_def option2_def truthy_def split: option.splits)
  with h show "execute e w topic n
          = (Returned \<lparr>articles = [], total = 0, query = topic\<rparr>, [GoogleNewsRSS])"
    by (simp add: prod_eq_iff execute_fst execute_snd option1_trace option2_trace option3_rejected
          empty_result_def)
next
  have "c = Thrown \<or> c = Normal \<or> (\<exists>r. c = Returned r)" for c :: "fetch_result completion"
    by (cases c) auto
  then show "\<exists>r. fst (execute e' w' topic' n') = Returned r"
    using option1_completes [of e' w' topic' n'] option2_completes [of e' w' topic' n']
          option3_completes [of w' topic' n']
    by (metis execute_fst)
qed

theorem C6_witness:
  "execute \<lparr>NEWSAPI_KEY = None, GNEWS_KEY = None\<rparr> down_world ''x'' 5
     = (Returned \<lparr>articles = [], total = 0, query = ''x''\<rparr>, [GoogleNewsRSS])"
  using C6_total_failure [of "\<lparr>NEWSAPI_KEY = None, GNEWS_KEY = None\<rparr>" down_world "''x''" 5]
  by (simp add: truthy_def down_world_def)



section \<open>The next run of the scheduler\<close>

subsection \<open>The calendar functions\<close>

text \<open>
  The year computed by \<open>YearFromDay\<close> is the one the language definition asks for, and
  the day within the year lies within the year: the tables of \<open>MonthFromTime\<close> and
  \<open>DateFromTime\<close> are applied inside their range.
\<close>

lemma floor_div_bounds:
  fixes x k :: int
  assumes "0 < k"
  shows "k * (x div k) \<le> x" and "x < k * (x div k) + k"
proof -
  have "k * (x div k) = x - x mod k" by (simp add: minus_mod_eq_mult_div)
  moreover have "0 \<le> x mod k" "x mod k < k" using assms by simp_all
  ultimately show "k * (x div k) \<le> x" and "x < k * (x div k) + k"
    by simp_all
qed

lemma DayFromYear_bounds:
  "146097 * (y - 1970) - 506 \<le> 400 * DayFromYear y"
  "400 * DayFromYear y \<le> 146097 * (y - 1970) + 589"
proof -
  define a where "a = (y - 1969) div 4"
  define b where "b = (y - 1901) div 100"
  define c where "c = (y - 1601) div 400"
  have a: "4 * a \<le> y - 1969" "y - 1969 < 4 * a + 4"
    unfolding a_def by (rule floor_div_bounds; simp)+
  have b: "100 * b \<le> y - 1901" "y - 1901 < 100 * b + 100"
    unfolding b_def by (rule floor_div_bounds; simp)+
  have c: "400 * c \<le> y - 1601" "y - 1601 < 400 * c + 400"
    unfolding c_def by (rule floor_div_bounds; simp)+
  have d: "DayFromYear y = 365 * (y - 1970) + a - b + c"
    by (simp add: DayFromYear_def a_def b_def c_def)
  show "146097 * (y - 1970) - 506 \<le> 400 * DayFromYear y"
    unfolding d using a b c by (simp add: algebra_simps)
  show "400 * DayFromYear y \<le> 146097 * (y - 1970) + 589"
    unfolding d using a b c by (simp add: algebra_simps)
qed

lemma YearFromDay_brackets:
  "DayFromYear (YearFromDay d) \<le> d \<and> d < DayFromYear (YearFromDay d + 1)"
proof -
  define q where "q = (d * 400) div 146097"
  have q: "146097 * q \<le> d * 400" "d * 400 < 146097 * q + 146097"
    unfolding q_def by (rule floor_div_bounds; simp)+
  have lo: "400 * DayFromYear (1970 + q - 1) \<le> 146097 * (q - 1) + 589"
    using DayFromYear_bounds(2) [of "1970 + q - 1"] by simp
  have hi: "146097 * (q + 2) - 506 \<le> 400 * DayFromYear (1970 + q + 1 + 1)"
    using DayFromYear_bounds(1) [of "1970 + q + 1 + 1"] by simp
  from lo q have 1: "DayFromYear (1970 + q - 1) \<le> d" by (simp add: algebra_simps)
  from hi q have 2: "d < DayFromYear (1970 + q + 1 + 1)" by (simp add: algebra_simps)
  show ?thesis
    using 1 2 by (simp add: YearFromDay_def Let_def q_def [symmetric])
qed

lemma div_succ:
  fixes a k :: int
  assumes "1 < k"
  shows "(a + 1) div k = a div k + (if a mod k = k - 1 then 1 else 0)"
proof -
  have "(a + 1) div k = a div k + 1 div k + (a mod k + 1 mod k) div k"
    by (rule div_add1_eq)
  moreover have "1 div k = 0" "1 mod k = 1" using assms by simp_all
  moreover have "0 \<le> a mod k" "a mod k < k" using assms by simp_all
  ultimately show ?thesis
    by (auto simp: div_pos_pos_trivial)
qed

lemma mod_pred:
  fixes y c k :: int
  assumes "1 < k" and "c mod k = 1"
  shows "(y - c) mod k = k - 1 \<longleftrightarrow> y mod k = 0"
proof -
  have "(y - c) mod k = (y mod k - c mod k) mod k" by (simp add: mod_diff_eq)
  with assms have e: "(y - c) mod k = (y mod k - 1) mod k" by simp
  have b: "0 \<le> y mod k" "y mod k < k" using assms by simp_all
  show ?thesis
  proof (cases "y mod k = 0")
    case True
    with assms show ?thesis by (simp add: e zmod_minus1)
  next
    case False
    with b have "0 \<le> y mod k - 1" "y mod k - 1 < k" by simp_all
    then have "(y mod k - 1) mod k = y mod k - 1" by (rule mod_pos_pos_trivial)
    with False b show ?thesis by (simp add: e)
  qed
qed

lemma year_step_div:
  fixes y c k :: int
  assumes "1 < k" and "c mod k = 1"
  shows "(y + 1 - c) div k = (y - c) div k + (if y mod k = 0 then 1 else 0)"
proof -
  have "(y - c + 1) div k = (y - c) div k + (if (y - c) mod k = k - 1 then 1 else 0)"
    using assms(1) by (rule div_succ)
  moreover have "(y - c) mod k = k - 1 \<longleftrightarrow> y mod k = 0"
    using assms by (rule mod_pred)
  moreover have "y + 1 - c = y - c + 1" by simp
  ultimately show ?thesis by (simp only:)
qed

lemma multiple_of_400: "(y::int) mod 400 = 0 \<Longrightarrow> y mod 100 = 0"
proof -
  assume "y mod 400 = 0"
  then have "400 dvd y" by (simp add: mod_eq_0_iff_dvd)
  moreover have "(100::int) dvd 400" by simp
  ultimately have "100 dvd y" by (rule dvd_trans [rotated])
  then show ?thesis by (simp add: mod_eq_0_iff_dvd)
qed

lemma multiple_of_100: "(y::int) mod 100 = 0 \<Longrightarrow> y mod 4 = 0"
proof -
  assume "y mod 100 = 0"
  then have "100 dvd y" by (simp add: mod_eq_0_iff_dvd)
  moreover have "(4::int) dvd 100" by simp
  ultimately have "4 dvd y" by (rule dvd_trans [rotated])
  then show ?thesis by (simp add: mod_eq_0_iff_dvd)
qed

lemma DayFromYear_step: "DayFromYear (y + 1) = DayFromYear y + DaysInYear y"
proof -
  have a: "(y + 1 - 1969) div 4 = (y - 1969) div 4 + (if y mod 4 = 0 then 1 else 0)"
    by (rule year_step_div) simp_all
  have b: "(y + 1 - 1901) div 100 = (y - 1901) div 100 + (if y mod 100 = 0 then 1 else 0)"
    by (rule year_step_div) simp_all
  have c: "(y + 1 - 1601) div 400 = (y - 1601) div 400 + (if y mod 400 = 0 then 1 else 0)"
    by (rule year_step_div) simp_all
  have "DayFromYear (y + 1) =
          365 * (y + 1 - 1970) + (y + 1 - 1969) div 4 - (y + 1 - 1901) div 100
          + (y + 1 - 1601) div 400"
    by (simp only: DayFromYear_def)
  also have "\<dots> = DayFromYear y + 365 + (if y mod 4 = 0 then 1 else 0)
          - (if y mod 100 = 0 then 1 else 0) + (if y mod 400 = 0 then 1 else 0)"
    by (simp only: a b c DayFromYear_def) (simp add: algebra_simps)
  also have "\<dots> = DayFromYear y + DaysInYear y"
    using multiple_of_400 [of y] multiple_of_100 [of y]
    by (cases "y mod 4 = 0"; cases "y mod 100 = 0"; cases "y mod 400 = 0")
       (simp_all add: DaysInYear_def)
  finally show ?thesis .
qed

lemma DayWithinYear_range:
  "0 \<le> DayWithinYear t \<and> DayWithinYear t < DaysInYear (YearFromTime t)"
  using YearFromDay_brackets [of "Day t"] DayFromYear_step [of "YearFromTime t"]
  by (simp add: DayWithinYear_def YearFromTime_def)

subsection \<open>Date fields and \<open>Date.UTC\<close>\<close>




















section \<open>The cycle of the scheduler\<close>

lemma step_preserves_fresh:
  assumes "handles_fresh s" and "step ev s = Some s'"
  shows "handles_fresh s'"
proof (cases ev)
  case (Start now pht_now)
  with assms show ?thesis
    by (auto simp: step_def scheduleNextRun_def handles_fresh_def Let_def less_Suc_eq)
next
  case Stop
  with assms show ?thesis
    by (auto simp: step_def stopScheduler_def clearTimeout_def handles_fresh_def
          split: option.splits)
next
  case (Fire h)
  with assms show ?thesis
    by (auto simp: step_def callback_enter_def clearTimeout_def handles_fresh_def
          split: if_splits)
next
  case (Settle now pht_now outcome)
  with assms show ?thesis
    by (auto simp: step_def callback_resume_def scheduleNextRun_def handles_fresh_def Let_def
          less_Suc_eq split: if_splits job_outcome.splits)
qed

lemma run_preserves_fresh:
  "handles_fresh s \<Longrightarrow> run evs s = Some s' \<Longrightarrow> handles_fresh s'"
proof (induction evs arbitrary: s)
  case Nil
  then show ?case by simp
next
  case (Cons ev evs)
  then show ?case
    by (auto split: option.splits dest: step_preserves_fresh)
qed

lemma reachable_fresh: "reachable s \<Longrightarrow> handles_fresh s"
proof -
  assume "reachable s"
  then obtain evs where "run evs initial_scheduler = Some s" by (auto simp: reachable_def)
  moreover have "handles_fresh initial_scheduler"
    by (simp add: handles_fresh_def initial_scheduler_def)
  ultimately show ?thesis by (blast intro: run_preserves_fresh)
qed

lemma run_append: "run (evs @ evs') s = (case run evs s of None \<Rightarrow> None | Some s' \<Rightarrow> run evs' s')"
  by (induction evs arbitrary: s) (auto split: option.splits)

lemma reachable_step: "reachable s \<Longrightarrow> step ev s = Some s' \<Longrightarrow> reachable s'"
proof -
  assume "reachable s" and st: "step ev s = Some s'"
  then obtain evs where "run evs initial_scheduler = Some s" by (auto simp: reachable_def)
  with st have "run (evs @ [ev]) initial_scheduler = Some s'" by (simp add: run_append)
  then show ?thesis unfolding reachable_def by blast
qed

lemma settle_rearms:
  assumes "isRunning s"
  shows "step (Settle now pht_now outcome) s = Some (callback_resume now pht_now outcome s)"
    and "\<not> isRunning (callback_resume now pht_now outcome s)"
    and "schedulerTimeout (callback_resume now pht_now outcome s) = Some (next_handle s)"
    and "pending (callback_resume now pht_now outcome s)
           = pending s @ [\<lparr>timer_handle = next_handle s,
                           timer_delay = getMillisecondsUntilNextRun now pht_now\<rparr>]"
    and "console_errors (callback_resume now pht_now outcome s)
           = (case outcome of Resolved \<Rightarrow> console_errors s | Threw \<Rightarrow> Suc (console_errors s))"
  using assms
  by (simp_all add: step_def callback_resume_def scheduleNextRun_def Let_def
        split: job_outcome.splits)

lemma fire_admitted:
  assumes "h \<in> timer_handle ` set (pending s)" and "\<not> isRunning s"
  shows "step (Fire h) s = Some (s\<lparr>pending := clearTimeout h (pending s), isRunning := True\<rparr>)"
  using assms by (simp add: step_def callback_enter_def)

lemma only_stop_idles:
  assumes "step ev s = Some s'" and "phase_of s' = Idle"
  shows "ev = Stop"
proof (cases ev)
  case (Start now pht_now)
  with assms show ?thesis
    by (auto simp: step_def scheduleNextRun_def phase_of_def Let_def split: if_splits)
next
  case Stop
  then show ?thesis .
next
  case (Fire h)
  with assms show ?thesis
    by (auto simp: step_def callback_enter_def phase_of_def split: if_splits)
next
  case (Settle now pht_now outcome)
  with assms show ?thesis
    by (auto simp: step_def callback_resume_def scheduleNextRun_def phase_of_def Let_def
          split: if_splits job_outcome.splits)
qed

text \<open>
  C5. When a pending timer fires while \<open>isRunning\<close> is unset, the flag is set and the
  job is in flight (the timer is consumed). When the job in flight settles, whether it
  resolved or threw, the flag is cleared and a timer is armed with a fresh handle and the
  delay computed from the clock readings of that moment, so the scheduler is armed again. From every reachable
  state the settling of a failed job leads to a reachable state with a pending timer.
  And a step that ends with no job in flight and no timer pending is a call of
  \<^verbatim>\<open>stopScheduler\<close>.
\<close>

theorem C5_rearm_after_every_run:
  "(h \<in> timer_handle ` set (pending s) \<and> \<not> isRunning s \<longrightarrow>
      (\<exists>s'. step (Fire h) s = Some s' \<and> isRunning s' \<and> phase_of s' = Running
            \<and> h \<notin> timer_handle ` set (pending s')))
   \<and> (isRunning s \<longrightarrow>
      (\<exists>s'. step (Settle now pht_now outcome) s = Some s' \<and> \<not> isRunning s'
            \<and> schedulerTimeout s' = Some (next_handle s)
            \<and> pending s' = pending s @ [\<lparr>timer_handle = next_handle s,
                                           timer_delay = getMillisecondsUntilNextRun now pht_now\<rparr>]
            \<and> phase_of s' = Armed))
   \<and> (reachable s \<longrightarrow> next_handle s \<notin> timer_handle ` set (pending s))
   \<and> (reachable s \<and> step (Settle now pht_now Threw) s = Some s'
        \<longrightarrow> reachable s' \<and> pending s' \<noteq> [] \<and> phase_of s' = Armed)
   \<and> (step ev s = Some s' \<and> phase_of s' = Idle \<longrightarrow> ev = Stop)"
proof (intro conjI impI)
  assume a: "h \<in> timer_handle ` set (pending s) \<and> \<not> isRunning s"
  then have "step (Fire h) s = Some (s\<lparr>pending := clearTimeout h (pending s), isRunning := True\<rparr>)"
    by (simp add: fire_admitted)
  then show "\<exists>s'. step (Fire h) s = Some s' \<and> isRunning s' \<and> phase_of s' = Running
            \<and> h \<notin> timer_handle ` set (pending s')"
    by (auto simp: phase_of_def clearTimeout_def)
next
  assume "isRunning s"
  then show "\<exists>s'. step (Settle now pht_now outcome) s = Some s' \<and> \<not> isRunning s'
            \<and> schedulerTimeout s' = Some (next_handle s)
            \<and> pending s' = pending s @ [\<lparr>timer_handle = next_handle s,
                                           timer_delay = getMillisecondsUntilNextRun now pht_now\<rparr>]
            \<and> phase_of s' = Armed"
    by (simp add: settle_rearms phase_of_def)
next
  assume "reachable s"
  then have "handles_fresh s" by (rule reachable_fresh)
  then show "next_handle s \<notin> timer_handle ` set (pending s)"
    by (auto simp: handles_fresh_def)
next
  assume a: "reachable s \<and> step (Settle now pht_now Threw) s = Some s'"
  then show "reachable s'" by (blast intro: reachable_step)
  from a have r: "isRunning s" by (auto simp: step_def split: if_splits)
  with a have s': "s' = callback_resume now pht_now Threw s" by (simp add: settle_rearms(1))
  from r show "pending s' \<noteq> []" unfolding s' by (simp add: settle_rearms)
  from r show "phase_of s' = Armed" unfolding s' by (simp add: settle_rearms phase_of_def)
next
  assume "step ev s = Some s' \<and> phase_of s' = Idle"
  then show "ev = Stop" by (blast intro: only_stop_idles)
qed

theorem C5_witness:
  "run [Start 1700000000000 1700000000001] initial_scheduler = Some armed_example
   \<and> step (Fire 0) armed_example = Some running_example
   \<and> phase_of running_example = Running
   \<and> step (Settle 1700074800500 1700074800501 Threw) running_example = Some rearmed_example
   \<and> phase_of rearmed_example = Armed
   \<and> reachable rearmed_example
   \<and> next_handle rearmed_example \<notin> timer_handle ` set (pending rearmed_example)
   \<and> step Stop rearmed_example
       = Some \<lparr>schedulerTimeout = None, isRunning = False, pending = [],
               next_handle = 2, console_errors = 1\<rparr>
   \<and> phase_of \<lparr>schedulerTimeout = None, isRunning = False, pending = [],
               next_handle = 2, console_errors = 1\<rparr> = Idle"
proof -
  have d0: "getMillisecondsUntilNextRun 1700000000000 1700000000001 = Some 74800000" by code_simp
  have d1: "getMillisecondsUntilNextRun 1700074800500 1700074800501 = Some 86399500" by code_simp
  have a: "run [Start 1700000000000 1700000000001] initial_scheduler = Some armed_example"
    by (simp add: step_def scheduleNextRun_def initial_scheduler_def armed_example_def d0)
  have b: "step (Fire 0) armed_example = Some running_example"
    by (simp add: step_def callback_enter_def clearTimeout_def armed_example_def
          running_example_def)
  have c: "step (Settle 1700074800500 1700074800501 Threw) running_example = Some rearmed_example"
    by (simp add: step_def callback_resume_def scheduleNextRun_def running_example_def
          rearmed_example_def d1)
  have e: "step Stop rearmed_example
       = Some \<lparr>schedulerTimeout = None, isRunning = False, pending = [],
               next_handle = 2, console_errors = 1\<rparr>"
    by (simp add: step_def stopScheduler_def clearTimeout_def rearmed_example_def)
  have i: "phase_of \<lparr>schedulerTimeout = None, isRunning = False, pending = [],
               next_handle = 2, console_errors = 1\<rparr> = Idle"
    by (simp add: phase_of_def)
  have "step (Start 1700000000000 1700000000001) initial_scheduler = Some armed_example"
    by (simp add: step_def scheduleNextRun_def initial_scheduler_def armed_example_def d0)
  then have "run [Start 1700000000000 1700000000001, Fire 0] initial_scheduler = Some running_example"
    using b by simp
  then have r: "reachable running_example" unfolding reachable_def by blast
  have f: "0 \<in> timer_handle ` set (pending armed_example)" "\<not> isRunning armed_example"
    by (simp_all add: armed_example_def)
  have g: "isRunning running_example" by (simp add: running_example_def)
  have p1: "phase_of running_example = Running"
    using C5_rearm_after_every_run [where s = armed_example and h = 0] f b by auto
  have p2: "phase_of rearmed_example = Armed"
    using C5_rearm_after_every_run
            [where s = running_example and now = 1700074800500 and pht_now = 1700074800501
               and outcome = Threw] g c
    by auto
  have r2: "reachable rearmed_example"
    using C5_rearm_after_every_run
            [where s = running_example and now = 1700074800500 and pht_now = 1700074800501
               and s' = rearmed_example]
          r c
    by blast
  have n: "next_handle rearmed_example \<notin> timer_handle ` set (pending rearmed_example)"
    using C5_rearm_after_every_run [where s = rearmed_example] r2 by blast
  have "Stop = Stop"
    using C5_rearm_after_every_run
            [where s = rearmed_example and ev = Stop
               and s' = "\<lparr>schedulerTimeout = None, isRunning = False, pending = [],
                            next_handle = 2, console_errors = 1\<rparr>"] e i
    by blast
  with a b c e i p1 p2 r2 n show ?thesis by simp
qed

section \<open>The revocation checks\<close>

text \<open>Reading back a number that was written with \<^verbatim>\<open>toString\<close>.\<close>

lemma digit_char_props:
  assumes "d < 10"
  shows "is_digit (digit_char d)" and "digit_value (digit_char d) = d"
    and "\<not> is_whitespace (digit_char d)"
    and "digit_char d \<noteq> CHR ''-''" and "digit_char d \<noteq> CHR ''+''"
proof -
  have o: "(of_char (digit_char d) :: nat) = 48 + d"
    using assms by (simp add: digit_char_def)
  show "is_digit (digit_char d)" using assms by (simp add: is_digit_def o)
  show "digit_value (digit_char d) = d" by (simp add: digit_value_def o)
  show "\<not> is_whitespace (digit_char d)" using assms by (simp add: is_whitespace_def o)
  show "digit_char d \<noteq> CHR ''-''"
  proof
    assume "digit_char d = CHR ''-''"
    then have "(of_char (digit_char d) :: nat) = of_char (CHR ''-'')" by simp
    with o show False by simp
  qed
  show "digit_char d \<noteq> CHR ''+''"
  proof
    assume "digit_char d = CHR ''+''"
    then have "(of_char (digit_char d) :: nat) = of_char (CHR ''+'')" by simp
    with o show False by simp
  qed
qed

lemma digits_nonempty: "digits n \<noteq> []"
  by (subst digits.simps) simp

lemma digits_all: "list_all is_digit (digits n)"
proof (induction n rule: digits.induct)
  case (1 n)
  show ?case
  proof (cases "n < 10")
    case True
    then show ?thesis by (subst digits.simps) (simp add: digit_char_props)
  next
    case False
    with 1 show ?thesis by (subst digits.simps) (simp add: digit_char_props)
  qed
qed

lemma digits_value_snoc: "digits_value (ds @ [c]) = digits_value ds * 10 + digit_value c"
  by (simp add: digits_value_def)

lemma digits_value_digits: "digits_value (digits n) = n"
proof (induction n rule: digits.induct)
  case (1 n)
  show ?case
  proof (cases "n < 10")
    case True
    then show ?thesis
      by (subst digits.simps) (simp add: digits_value_def digit_char_props)
  next
    case False
    with 1 have "digits_value (digits (n div 10)) = n div 10" by simp
    with False show ?thesis
      by (subst digits.simps) (simp add: digits_value_snoc digit_char_props)
  qed
qed

lemma hd_digits: "is_digit (hd (digits n))"
  using digits_all [of n] digits_nonempty [of n] by (cases "digits n") simp_all

lemma is_digit_not_other:
  assumes "is_digit c"
  shows "\<not> is_whitespace c" and "c \<noteq> CHR ''-''" and "c \<noteq> CHR ''+''"
  using assms by (auto simp: is_digit_def is_whitespace_def)

lemma parseInt_digits: "parseInt (digits n) = Some (int n)"
proof -
  have h: "\<not> is_whitespace (hd (digits n))" "hd (digits n) \<noteq> CHR ''-''"
    "hd (digits n) \<noteq> CHR ''+''"
    using is_digit_not_other [OF hd_digits [of n]] by simp_all
  have w: "dropWhile is_whitespace (digits n) = digits n"
    using h(1) digits_nonempty [of n] by (cases "digits n") simp_all
  have t: "takeWhile is_digit (digits n) = digits n"
    using digits_all [of n] by (simp add: takeWhile_eq_all_conv list_all_iff)
  show ?thesis
    unfolding parseInt_def w Let_def
    by (simp add: h t digits_nonempty digits_value_digits)
qed

lemma parseInt_minus_digits: "parseInt (CHR ''-'' # digits n) = Some (- int n)"
proof -
  have m: "\<not> is_whitespace (CHR ''-'')" by (simp add: is_whitespace_def)
  have t: "takeWhile is_digit (digits n) = digits n"
    using digits_all [of n] by (simp add: takeWhile_eq_all_conv list_all_iff)
  show ?thesis
    unfolding parseInt_def Let_def
    using m digits_nonempty [of n] by (simp add: t digits_value_digits)
qed

lemma parseInt_Number_toString: "parseInt (Number_toString i) = Some i"
  by (simp add: Number_toString_def parseInt_digits parseInt_minus_digits)

lemma parseInt_empty: "parseInt [] = None"
  by (simp add: parseInt_def)

text \<open>
  C7. Without a connected cache both checks answer \<open>False\<close>, and so they do when the
  read of the cache fails. With a connected cache whose read succeeds, the check against
  the sign update answers \<open>True\<close> exactly when a record was found for the user whose text
  reads as a number that the token's issue time, in milliseconds, lies strictly below; for
  the in-memory cache this number is the cutoff that \<^verbatim>\<open>invalidateUserTokens\<close> recorded,
  for as long as the record lives. The last two statements are made for time stamps that
  are safe integers: the issue time in milliseconds, the number the record reads as, and
  the cutoff handed to \<^verbatim>\<open>invalidateUserTokens\<close>.
\<close>

theorem C7_revocation_fail_open:
  "(\<not> isRedisConnected m \<longrightarrow>
      fst (isTokenBlacklisted m now tokenId) = False
      \<and> fst (isTokenInvalidatedBySignUpdate m now userId tokenIat) = False)
   \<and> (redisClient m = Some client
        \<and> get_method client (store client) now (''token:blacklist:'' @ tokenId) = Rejected
        \<longrightarrow> fst (isTokenBlacklisted m now tokenId) = False)
   \<and> (redisClient m = Some client
        \<and> get_method client (store client) now (''user:signUpdate:'' @ userId) = Rejected
        \<longrightarrow> fst (isTokenInvalidatedBySignUpdate m now userId tokenIat) = False)
   \<and> (isRedisConnected m \<and> redisClient m = Some client
        \<and> get_method client (store client) now (''user:signUpdate:'' @ userId)
            = Fulfilled (found, st)
        \<and> isSafeInteger (tokenIat * 1000)
        \<and> (\<forall>text cutoff. found = Some text \<and> parseInt text = Some cutoff
               \<longrightarrow> isSafeInteger cutoff)
        \<longrightarrow> fst (isTokenInvalidatedBySignUpdate m now userId tokenIat)
            = (\<exists>text cutoff. found = Some text \<and> parseInt text = Some cutoff
                             \<and> tokenIat * 1000 < cutoff))
   \<and> (isRedisConnected m \<and> redisClient m = Some client
        \<and> get_method client = get_method createInMemoryCache
        \<and> setEx_method client = setEx_method createInMemoryCache
        \<and> now \<le> now' \<and> now' \<le> now + 86400 * 1000
        \<and> isSafeInteger signUpdate \<and> isSafeInteger (tokenIat * 1000)
        \<longrightarrow> fst (isTokenInvalidatedBySignUpdate
                   (invalidateUserTokens m now userId signUpdate) now' userId tokenIat)
            = (tokenIat * 1000 < signUpdate))"
proof (intro conjI impI)
  assume "\<not> isRedisConnected m"
  then show "fst (isTokenBlacklisted m now tokenId) = False"
    and "fst (isTokenInvalidatedBySignUpdate m now userId tokenIat) = False"
    by (simp_all add: isTokenBlacklisted_def isTokenInvalidatedBySignUpdate_def)
next
  assume "redisClient m = Some client
        \<and> get_method client (store client) now (''token:blacklist:'' @ tokenId) = Rejected"
  then show "fst (isTokenBlacklisted m now tokenId) = False"
    by (simp add: isTokenBlacklisted_def)
next
  assume "redisClient m = Some client
        \<and> get_method client (store client) now (''user:signUpdate:'' @ userId) = Rejected"
  then show "fst (isTokenInvalidatedBySignUpdate m now userId tokenIat) = False"
    by (simp add: isTokenInvalidatedBySignUpdate_def)
next
  assume "isRedisConnected m \<and> redisClient m = Some client
        \<and> get_method client (store client) now (''user:signUpdate:'' @ userId)
            = Fulfilled (found, st)
        \<and> isSafeInteger (tokenIat * 1000)
        \<and> (\<forall>text cutoff. found = Some text \<and> parseInt text = Some cutoff
               \<longrightarrow> isSafeInteger cutoff)"
  then have "isRedisConnected m \<and> redisClient m = Some client
        \<and> get_method client (store client) now (''user:signUpdate:'' @ userId)
            = Fulfilled (found, st)"
    by simp
  then show "fst (isTokenInvalidatedBySignUpdate m now userId tokenIat)
            = (\<exists>text cutoff. found = Some text \<and> parseInt text = Some cutoff
                             \<and> tokenIat * 1000 < cutoff)"
    by (auto simp: isTokenInvalidatedBySignUpdate_def truthy_def Let_def parseInt_empty
          split: option.splits)
next
  assume a: "isRedisConnected m \<and> redisClient m = Some client
        \<and> get_method client = get_method createInMemoryCache
        \<and> setEx_method client = setEx_method createInMemoryCache
        \<and> now \<le> now' \<and> now' \<le> now + 86400 * 1000
        \<and> isSafeInteger signUpdate \<and> isSafeInteger (tokenIat * 1000)"
  define st where "st = setEx (store client) now (''user:signUpdate:'' @ userId) 86400
                       (Number_toString signUpdate)"
  define m' where "m' = m\<lparr>redisClient := Some (client\<lparr>store := st\<rparr>)\<rparr>"
  from a have inv: "invalidateUserTokens m now userId signUpdate = m'"
    by (simp add: invalidateUserTokens_def createInMemoryCache_def m'_def st_def)
  from a have conn: "isRedisConnected m'"
    by (simp add: isRedisConnected_def m'_def)
  from a have g: "get st now' (''user:signUpdate:'' @ userId)
                    = (Some (Number_toString signUpdate), st)"
    by (simp add: get_def st_def setEx_def)
  have nz: "Number_toString signUpdate \<noteq> []"
    by (simp add: Number_toString_def digits_nonempty)
  from a show "fst (isTokenInvalidatedBySignUpdate
                   (invalidateUserTokens m now userId signUpdate) now' userId tokenIat)
            = (tokenIat * 1000 < signUpdate)"
    unfolding inv
    using conn g nz
    by (simp add: isTokenInvalidatedBySignUpdate_def m'_def createInMemoryCache_def
          truthy_def parseInt_Number_toString)
qed

theorem C7_witness:
  "fst (isTokenBlacklisted \<lparr>redisClient = None, isConnected = False\<rparr> 5000 ''t1'') = False
   \<and> fst (isTokenInvalidatedBySignUpdate \<lparr>redisClient = None, isConnected = False\<rparr> 5000
           ''u1'' 1699999999) = False
   \<and> fst (isTokenBlacklisted \<lparr>redisClient = Some rejecting_client, isConnected = True\<rparr> 5000
           ''t1'') = False
   \<and> fst (isTokenInvalidatedBySignUpdate
           \<lparr>redisClient = Some rejecting_client, isConnected = True\<rparr> 5000 ''u1'' 1699999999)
       = False
   \<and> fst (isTokenInvalidatedBySignUpdate
           (invalidateUserTokens initRedis 5000 ''u1'' 1700000000000) 6000 ''u1'' 1699999999)
       = True
   \<and> fst (isTokenInvalidatedBySignUpdate
           (invalidateUserTokens initRedis 5000 ''u1'' 1700000000000) 6000 ''u1'' 1700000000)
       = False
   \<and> fst (isTokenInvalidatedBySignUpdate initRedis 5000 ''u1'' 1699999999) = False
   \<and> fst (isTokenInvalidatedBySignUpdate recorded_example 6000 ''u2'' 1699999999) = True"
proof -
  let ?off = "\<lparr>redisClient = None, isConnected = False\<rparr>"
  let ?bad = "\<lparr>redisClient = Some rejecting_client, isConnected = True\<rparr>"
  let ?rec = "Map.empty(''user:signUpdate:u2'' \<mapsto>
                 \<lparr>payload = ''1700000000000'', expires = 90000\<rparr>)"
  have c: "isRedisConnected initRedis" "redisClient initRedis = Some createInMemoryCache"
    by (simp_all add: isRedisConnected_def initRedis_def)
  have e: "get_method createInMemoryCache (store createInMemoryCache) 5000
             (''user:signUpdate:'' @ ''u1'') = Fulfilled (None, Map.empty)"
    by (simp add: createInMemoryCache_def get_def)
  have r: "isRedisConnected recorded_example"
    "redisClient recorded_example = Some (createInMemoryCache\<lparr>store := ?rec\<rparr>)"
    by (simp_all add: isRedisConnected_def recorded_example_def)
  have g: "get_method (createInMemoryCache\<lparr>store := ?rec\<rparr>)
             (store (createInMemoryCache\<lparr>store := ?rec\<rparr>)) 6000
             (''user:signUpdate:'' @ ''u2'') = Fulfilled (Some ''1700000000000'', ?rec)"
    by (simp add: createInMemoryCache_def get_def)
  have p: "parseInt ''1700000000000'' = Some 1700000000000"
    by (simp add: parseInt_def is_whitespace_def is_digit_def digits_value_def digit_value_def)
  have f: "fst (isTokenInvalidatedBySignUpdate recorded_example 6000 ''u2'' 1699999999) = True"
    using C7_revocation_fail_open
         [where m = recorded_example and client = "createInMemoryCache\<lparr>store := ?rec\<rparr>"
            and now = 6000 and userId = "''u2''" and tokenIat = 1699999999
            and found = "Some ''1700000000000''" and st = ?rec]
       r g p
    by (simp add: isSafeInteger_def MAX_SAFE_INTEGER_def)
  from C7_revocation_fail_open
         [where m = ?off and now = 5000 and tokenId = "''t1''" and userId = "''u1''"
            and tokenIat = 1699999999]
       C7_revocation_fail_open
         [where m = ?bad and client = rejecting_client and now = 5000 and tokenId = "''t1''"
            and userId = "''u1''" and tokenIat = 1699999999]
       C7_revocation_fail_open
         [where m = initRedis and client = createInMemoryCache and now = 5000 and now' = 6000
            and userId = "''u1''" and tokenIat = 1699999999 and signUpdate = 1700000000000
            and found = None and st = Map.empty]
       C7_revocation_fail_open
         [where m = initRedis and client = createInMemoryCache and now = 5000 and now' = 6000
            and userId = "''u1''" and tokenIat = 1700000000 and signUpdate = 1700000000000]
       c e f
  show ?thesis
    by (simp add: isRedisConnected_def rejecting_client_def isSafeInteger_def
          MAX_SAFE_INTEGER_def)
qed

section \<open>The JSON library of the examples reads what it writes\<close>

lemma read_string_escape: "read_string (escape s @ CHR 0x22 # r) = Some (s, r)"
  by (induction s) simp_all

lemma takeWhile_digits:
  assumes "follow r"
  shows "takeWhile is_digit (digits n @ r) = digits n"
    and "dropWhile is_digit (digits n @ r) = r"
proof -
  have all: "\<forall>c \<in> set (digits n). is_digit c"
    using digits_all [of n] by (simp add: list_all_iff)
  have r: "takeWhile is_digit r = []" "dropWhile is_digit r = r"
    using assms by (cases r; simp add: follow_def)+
  from all show "takeWhile is_digit (digits n @ r) = digits n"
    by (simp add: r)
  from all show "dropWhile is_digit (digits n @ r) = r"
    by (simp add: r)
qed

lemma read_number_Number_toString:
  assumes "follow r"
  shows "read_number (Number_toString i @ r) = Some (i, r)"
proof (cases "i < 0")
  case True
  then have t: "Number_toString i @ r = CHR ''-'' # digits (nat (- i)) @ r"
    by (simp add: Number_toString_def)
  show ?thesis
    unfolding t read_number_def Let_def
    using True by (simp add: takeWhile_digits [OF assms] digits_nonempty digits_value_digits)
next
  case False
  then have t: "Number_toString i @ r = digits (nat i) @ r"
    by (simp add: Number_toString_def)
  obtain c cs where d: "digits (nat i) = c # cs"
    using digits_nonempty [of "nat i"] by (cases "digits (nat i)") auto
  with hd_digits [of "nat i"] have "is_digit c" by simp
  then have "c \<noteq> CHR ''-''" by (rule is_digit_not_other)
  then have h: "\<not> (digits (nat i) @ r \<noteq> [] \<and> hd (digits (nat i) @ r) = CHR ''-'')"
    by (simp add: d)
  show ?thesis
    unfolding t read_number_def Let_def
    using False h by (simp add: takeWhile_digits [OF assms] digits_nonempty digits_value_digits)
qed

lemma starts_with_simps:
  "starts_with [] s = True"
  "starts_with (p # ps) [] = False"
  "starts_with (p # ps) (c # cs) = (p = c \<and> starts_with ps cs)"
  by (auto simp: starts_with_def)

lemma is_digit_cases:
  assumes "is_digit c"
  shows "c \<noteq> CHR ''n''" "c \<noteq> CHR ''t''" "c \<noteq> CHR ''f''" "c \<noteq> CHR 0x22" "c \<noteq> CHR ''[''"
    "c \<noteq> CHR ''{''" "c \<noteq> CHR '']''" "c \<noteq> CHR ''}''" "c \<noteq> CHR '',''"
  using assms by (auto simp: is_digit_def)

lemma value_start_not_closing:
  assumes "value_start c"
  shows "c \<noteq> CHR '']''" "c \<noteq> CHR ''}''"
  using assms is_digit_cases(7,8) [of c] by (auto simp: value_start_def)

lemma Number_toString_first:
  "\<exists>c cs. Number_toString i = c # cs \<and> (c = CHR ''-'' \<or> is_digit c)"
proof (cases "i < 0")
  case True
  then show ?thesis by (simp add: Number_toString_def)
next
  case False
  obtain c cs where d: "digits (nat i) = c # cs"
    using digits_nonempty [of "nat i"] by (cases "digits (nat i)") auto
  with hd_digits [of "nat i"] have "is_digit c" by simp
  with d False show ?thesis by (simp add: Number_toString_def)
qed

lemma write_json_first: "\<exists>c cs. write_json j = c # cs \<and> value_start c"
proof (cases j)
  case (JNumber i)
  with Number_toString_first [of i] show ?thesis by (auto simp: value_start_def)
next
  case (JArray xs)
  then show ?thesis by (cases xs) (simp_all add: value_start_def)
next
  case (JObject ms)
  then show ?thesis
  proof (cases ms)
    case Nil
    with JObject show ?thesis by (simp add: value_start_def)
  next
    case (Cons m ms')
    obtain k v where "m = (k, v)" by (cases m)
    with JObject Cons show ?thesis by (simp add: value_start_def)
  qed
qed (simp_all add: value_start_def quote_def)

lemma follow_simps:
  "follow []" "follow (CHR '','' # s)" "follow (CHR '']'' # s)" "follow (CHR ''}'' # s)"
  by (simp_all add: follow_def is_digit_def)

lemma follow_elements: "follow (write_elements xs @ r)"
  by (cases xs) (simp_all add: follow_simps)

lemma follow_members: "follow (write_members ms @ r)"
proof (cases ms)
  case Nil
  then show ?thesis by (simp add: follow_simps)
next
  case (Cons m ms')
  obtain k v where "m = (k, v)" by (cases m)
  with Cons show ?thesis by (simp add: follow_simps)
qed

lemma read_json_number:
  assumes "follow r"
  shows "read_json (Suc f) (Number_toString i @ r) = Some (JNumber i, r)"
proof -
  obtain c cs where t: "Number_toString i = c # cs" and c: "c = CHR ''-'' \<or> is_digit c"
    using Number_toString_first [of i] by blast
  from c have n: "c \<noteq> CHR ''n''" "c \<noteq> CHR ''t''" "c \<noteq> CHR ''f''" "c \<noteq> CHR 0x22"
    "c \<noteq> CHR ''[''" "c \<noteq> CHR ''{''"
    using is_digit_cases [of c] by auto
  have "read_number (c # cs @ r) = Some (i, r)"
    using read_number_Number_toString [OF assms, of i] by (simp add: t)
  with n show ?thesis
    by (simp add: read_json.simps t starts_with_simps)
qed

lemma read_member_written:
  assumes "rd (write_json v @ r) = Some (v, r)"
  shows "read_member rd (quote k @ CHR '':'' # write_json v @ r) = Some ((k, v), r)"
  using assms by (simp add: read_member_def quote_def read_string_escape)

lemma read_write:
  "length (write_json j @ r) < f \<Longrightarrow> follow r
     \<Longrightarrow> read_json f (write_json j @ r) = Some (j, r)"
  "length (write_elements xs @ r) < f
     \<Longrightarrow> read_elements f (write_elements xs @ r) = Some (xs, r)"
  "length (write_members ms @ r) < f
     \<Longrightarrow> read_members f (write_members ms @ r) = Some (ms, r)"
proof (induction j and xs and ms arbitrary: f r and f r and f r
       rule: write_json_write_elements_write_members.induct)
  case 1
  then obtain f' where "f = Suc f'" by (cases f) auto
  then show ?case by (simp add: read_json.simps starts_with_simps)
next
  case (2 b)
  then obtain f' where "f = Suc f'" by (cases f) auto
  then show ?case by (simp add: read_json.simps starts_with_simps)
next
  case (3 i)
  then obtain f' where "f = Suc f'" by (cases f) auto
  with 3 show ?case by (simp add: read_json_number)
next
  case (4 s)
  then obtain f' where "f = Suc f'" by (cases f) auto
  then show ?case
    by (simp add: read_json.simps starts_with_simps quote_def read_string_escape)
next
  case 5
  then obtain f' where "f = Suc f'" by (cases f) auto
  then show ?case by (simp add: read_json.simps starts_with_simps)
next
  case (6 x xs)
  then obtain f' where f: "f = Suc f'" by (cases f) auto
  obtain c cs where x: "write_json x = c # cs" and c: "value_start c"
    using write_json_first [of x] by blast
  have n: "c \<noteq> CHR '']''" using c by (rule value_start_not_closing)
  from 6(3) f have l1: "length (write_json x @ write_elements xs @ r) < f'" by simp
  then have l2: "length (write_elements xs @ r) < f'" by simp
  have a: "read_json f' (write_json x @ write_elements xs @ r) = Some (x, write_elements xs @ r)"
    using l1 follow_elements by (rule "6.IH"(1))
  have b: "read_elements f' (write_elements xs @ r) = Some (xs, r)"
    using l2 by (rule "6.IH"(2))
  have s: "\<not> starts_with '']'' (write_json x @ write_elements xs @ r)"
    using n by (simp add: x starts_with_simps)
  show ?case
    using a b s by (simp add: f read_json.simps starts_with_simps)
next
  case 7
  then obtain f' where "f = Suc f'" by (cases f) auto
  then show ?case by (simp add: read_json.simps starts_with_simps)
next
  case (8 k v ms)
  then obtain f' where f: "f = Suc f'" by (cases f) auto
  from 8(3) f have l1: "length (write_json v @ write_members ms @ r) < f'" by simp
  then have l2: "length (write_members ms @ r) < f'" by simp
  have a: "read_json f' (write_json v @ write_members ms @ r) = Some (v, write_members ms @ r)"
    using l1 follow_members by (rule "8.IH"(1))
  have b: "read_members f' (write_members ms @ r) = Some (ms, r)"
    using l2 by (rule "8.IH"(2))
  have m: "read_member (read_json f') (quote k @ CHR '':'' # write_json v @ write_members ms @ r)
             = Some ((k, v), write_members ms @ r)"
    using a by (rule read_member_written)
  have s: "\<not> starts_with ''}'' (quote k @ CHR '':'' # write_json v @ write_members ms @ r)"
    by (simp add: quote_def starts_with_simps)
  show ?case
    using m b s by (simp add: f read_json.simps starts_with_simps)
next
  case 9
  then obtain f' where "f = Suc f'" by (cases f) auto
  then show ?case by (simp add: read_elements.simps)
next
  case (10 x xs)
  then obtain f' where f: "f = Suc f'" by (cases f) auto
  from 10(3) f have l1: "length (write_json x @ write_elements xs @ r) < f'" by simp
  then have l2: "length (write_elements xs @ r) < f'" by simp
  have a: "read_json f' (write_json x @ write_elements xs @ r) = Some (x, write_elements xs @ r)"
    using l1 follow_elements by (rule "10.IH"(1))
  have b: "read_elements f' (write_elements xs @ r) = Some (xs, r)"
    using l2 by (rule "10.IH"(2))
  show ?case
    using a b by (simp add: f read_elements.simps)
next
  case 11
  then obtain f' where "f = Suc f'" by (cases f) auto
  then show ?case by (simp add: read_members.simps)
next
  case (12 k v ms)
  then obtain f' where f: "f = Suc f'" by (cases f) auto
  from 12(3) f have l1: "length (write_json v @ write_members ms @ r) < f'" by simp
  then have l2: "length (write_members ms @ r) < f'" by simp
  have a: "read_json f' (write_json v @ write_members ms @ r) = Some (v, write_members ms @ r)"
    using l1 follow_members by (rule "12.IH"(1))
  have b: "read_members f' (write_members ms @ r) = Some (ms, r)"
    using l2 by (rule "12.IH"(2))
  have m: "read_member (read_json f') (quote k @ CHR '':'' # write_json v @ write_members ms @ r)
             = Some ((k, v), write_members ms @ r)"
    using a by (rule read_member_written)
  show ?case
    using m b by (simp add: f read_members.simps)
qed

lemma mini_parse_write_json: "mini_parse (write_json j) = Some j"
  using read_write(1) [of j "[]" "Suc (length (write_json j))"]
  by (simp add: mini_parse_def follow_simps)

lemma round_trip_mini_json: "round_trip mini_json"
  by (simp add: round_trip_def mini_json_def mini_parse_write_json)

section \<open>Histories in the cache store\<close>

lemma slice_to_end:
  "slice xs start None =
     drop (nat (if start < 0 then max (int (length xs) + start) 0 else min start (int (length xs)))) xs"
  by (simp add: slice_def Let_def)

lemma slice_last_100: "slice xs (- 100) None = last_n 100 xs"
proof -
  have "nat (max (int (length xs) - 100) 0) = length xs - 100" by simp
  then show ?thesis by (simp add: slice_to_end last_n_def)
qed

lemma slice_whole: "slice xs 0 None = xs"
  by (simp add: slice_to_end)

lemma last_n_append: "last_n n (last_n n xs @ ys) = last_n n (xs @ ys)"
  unfolding last_n_def
  by (cases "length xs \<le> n") (simp_all add: drop_append add.commute)

lemma last_n_short: "length xs \<le> n \<Longrightarrow> last_n n xs = xs"
  by (simp add: last_n_def)

lemma last_n_long: "n \<le> length ys \<Longrightarrow> last_n n (xs @ ys) = last_n n ys"
  by (simp add: last_n_def)

lemma length_last_n: "length (last_n n xs) = min n (length xs)"
  by (simp add: last_n_def)

lemma stored_array_written:
  assumes "round_trip J"
  shows "stored_array J (st(key \<mapsto> \<lparr>payload = JSON_stringify J (JArray xs), expires = t\<rparr>)) key = xs"
  using assms by (simp add: stored_array_def round_trip_def)

lemma stored_array_other:
  "k \<noteq> key \<Longrightarrow> stored_array J (st(key \<mapsto> e)) k = stored_array J st k"
  by (simp add: stored_array_def)

lemma rPush_valid:
  assumes "JSON_parse J v = Some j"
  shows "rPush J st now key v =
           Inr (st(key \<mapsto> \<lparr>payload = JSON_stringify J (JArray (stored_array J st key @ [j])),
                          expires = now + thirty_days\<rparr>))"
  using assms by (simp add: rPush_def)

lemma lTrim_written:
  assumes "round_trip J"
  shows "lTrim J (st(key \<mapsto> \<lparr>payload = JSON_stringify J (JArray xs), expires = t\<rparr>)) now key
           start (- 1)
         = st(key \<mapsto> \<lparr>payload = JSON_stringify J (JArray (slice xs start None)),
                      expires = now + thirty_days\<rparr>)"
  using assms by (simp add: lTrim_def round_trip_def)

lemma lRange_written:
  assumes "round_trip J"
  shows "lRange J (st(key \<mapsto> \<lparr>payload = JSON_stringify J (JArray xs), expires = t\<rparr>)) key
           start (- 1)
         = map (JSON_stringify J) (slice xs start None)"
  using assms by (simp add: lRange_def round_trip_def)

text \<open>
  The state of the history after a sequence of capped appends, from any store: the
  entry holds the last hundred of what was there followed by what was appended.
\<close>

lemma append_capped_result:
  assumes "round_trip J"
    and "list_all2 (\<lambda>step j. JSON_parse J (snd step) = Some j) steps js"
    and "steps \<noteq> []"
  shows "\<exists>t. append_capped J st key steps =
           Inr (st(key \<mapsto> \<lparr>payload = JSON_stringify J
                                     (JArray (last_n 100 (stored_array J st key @ js))),
                          expires = t\<rparr>))"
  using assms(2,3)
proof (induction steps js arbitrary: st rule: list_all2_induct)
  case Nil
  then show ?case by simp
next
  case (Cons step steps j js)
  obtain now v where step: "step = (now, v)" by (cases step)
  with Cons have v: "JSON_parse J v = Some j" by simp
  define xs where "xs = stored_array J st key"
  define st1 where
    "st1 = st(key \<mapsto> \<lparr>payload = JSON_stringify J (JArray (last_n 100 (xs @ [j]))),
                    expires = now + thirty_days\<rparr>)"
  have one: "lTrim J (st(key \<mapsto> \<lparr>payload = JSON_stringify J (JArray (xs @ [j])),
                                 expires = now + thirty_days\<rparr>)) now key (- 100) (- 1) = st1"
    unfolding st1_def by (simp only: lTrim_written [OF assms(1)] slice_last_100)
  have run: "append_capped J st key (step # steps) = append_capped J st1 key steps"
    by (simp add: step rPush_valid [OF v] xs_def [symmetric] one)
  have arr1: "stored_array J st1 key = last_n 100 (xs @ [j])"
    unfolding st1_def by (rule stored_array_written [OF assms(1)])
  have over: "st1(key \<mapsto> e) = st(key \<mapsto> e)" for e
    by (simp add: st1_def)
  show ?case
  proof (cases "steps = []")
    case True
    with Cons have "js = []" by simp
    with True have "append_capped J st key (step # steps) =
        Inr (st(key \<mapsto> \<lparr>payload = JSON_stringify J
                                  (JArray (last_n 100 (stored_array J st key @ j # js))),
                       expires = now + thirty_days\<rparr>))"
      unfolding run by (simp add: st1_def xs_def)
    then show ?thesis by (rule exI)
  next
    case False
    from Cons.IH [OF False, of st1] obtain t where
      "append_capped J st1 key steps =
         Inr (st1(key \<mapsto> \<lparr>payload = JSON_stringify J
                                   (JArray (last_n 100 (stored_array J st1 key @ js))),
                         expires = t\<rparr>))"
      by blast
    moreover have "last_n 100 (stored_array J st1 key @ js) = last_n 100 (xs @ j # js)"
      unfolding arr1 using last_n_append [of 100 "xs @ [j]" js] by simp
    ultimately have "append_capped J st key (step # steps) =
        Inr (st(key \<mapsto> \<lparr>payload = JSON_stringify J
                                  (JArray (last_n 100 (stored_array J st key @ j # js))),
                       expires = t\<rparr>))"
      unfolding run by (simp only: over xs_def)
    then show ?thesis by (rule exI)
  qed
qed

lemma map_last_n: "map g (last_n n xs) = last_n n (map g xs)"
  by (simp add: last_n_def drop_map)

lemma canonical_texts:
  assumes "round_trip J"
    and "list_all2 (\<lambda>step j. JSON_parse J (snd step) = Some j) steps js"
    and "\<forall>step \<in> set steps. \<exists>j. snd step = JSON_stringify J j"
  shows "map (JSON_stringify J) js = map snd steps"
  using assms(2,3)
proof (induction steps js rule: list_all2_induct)
  case Nil
  then show ?case by simp
next
  case (Cons step steps j js)
  then obtain j' where j': "snd step = JSON_stringify J j'" by auto
  with assms(1) have "JSON_parse J (snd step) = Some j'" by (simp add: round_trip_def)
  with Cons have "j' = j" by simp
  with j' Cons show ?case by simp
qed

text \<open>
  C4. Let the JSON library read back what it writes, and let more than 100 values, each
  of them valid JSON text, be appended to a key, every append followed by
  \<^verbatim>\<open>lTrim(key, -100, -1)\<close>; the store before is arbitrary. Then no append throws, and
  \<^verbatim>\<open>lRange(key, 0, -1)\<close> afterwards returns 100 texts: the serializations of the 100 values
  appended last, in the order of the appends. Where the appended texts are themselves
  serializations, as those of \<^verbatim>\<open>logRetentionCleanup\<close> are, the texts returned are the
  100 texts appended last.
\<close>

theorem C4_history_capped:
  assumes "round_trip J"
    and "list_all2 (\<lambda>step j. JSON_parse J (snd step) = Some j) steps js"
    and "100 < length steps"
  shows "\<exists>st'. append_capped J st key steps = Inr st'
           \<and> lRange J st' key 0 (- 1) = map (JSON_stringify J) (last_n 100 js)
           \<and> length (lRange J st' key 0 (- 1)) = 100
           \<and> ((\<forall>step \<in> set steps. \<exists>j. snd step = JSON_stringify J j)
                \<longrightarrow> lRange J st' key 0 (- 1) = last_n 100 (map snd steps))"
proof -
  from assms(2) have len: "length js = length steps" by (simp add: list_all2_lengthD)
  from assms(3) have ne: "steps \<noteq> []" by auto
  from append_capped_result [OF assms(1,2) ne, of st key] obtain t where
    run: "append_capped J st key steps =
            Inr (st(key \<mapsto> \<lparr>payload = JSON_stringify J
                                      (JArray (last_n 100 (stored_array J st key @ js))),
                           expires = t\<rparr>))"
    by blast
  have "100 \<le> length js" using assms(3) len by simp
  then have recent: "last_n 100 (stored_array J st key @ js) = last_n 100 js"
    by (rule last_n_long)
  define st' where
    "st' = st(key \<mapsto> \<lparr>payload = JSON_stringify J (JArray (last_n 100 js)), expires = t\<rparr>)"
  have a: "append_capped J st key steps = Inr st'"
    unfolding run recent st'_def ..
  have b: "lRange J st' key 0 (- 1) = map (JSON_stringify J) (last_n 100 js)"
    unfolding st'_def by (simp only: lRange_written [OF assms(1)] slice_whole)
  have c: "length (lRange J st' key 0 (- 1)) = 100"
    unfolding b using assms(3) len by (simp add: length_last_n)
  have d: "lRange J st' key 0 (- 1) = last_n 100 (map snd steps)"
    if "\<forall>step \<in> set steps. \<exists>j. snd step = JSON_stringify J j"
    unfolding b map_last_n using canonical_texts [OF assms(1,2) that] by simp
  from a b c d show ?thesis by blast
qed

theorem C4_witness:
  "\<exists>st'. append_capped mini_json Map.empty history_key history_steps = Inr st'
         \<and> lRange mini_json st' history_key 0 (- 1)
             = map (\<lambda>n. write_json (history_entry n)) [2..<102]
         \<and> length (lRange mini_json st' history_key 0 (- 1)) = 100"
proof -
  have p: "list_all2 (\<lambda>step j. JSON_parse mini_json (snd step) = Some j)
             history_steps (map history_entry [1..<102])"
    unfolding history_steps_def
    by (simp add: list_all2_map1 list_all2_map2 list_all2_same mini_json_def
          mini_parse_write_json)
  have n: "100 < length history_steps" by (simp add: history_steps_def)
  have c: "\<forall>step \<in> set history_steps. \<exists>j. snd step = JSON_stringify mini_json j"
    by (auto simp: history_steps_def mini_json_def)
  have m: "map snd history_steps = map (\<lambda>n. write_json (history_entry n)) [1..<102]"
    unfolding history_steps_def by (simp only: map_map comp_def snd_conv)
  have "length (map (\<lambda>n. write_json (history_entry n)) [1..<102]) - 100 = 1"
    by simp
  then have "last_n 100 (map snd history_steps)
               = map (\<lambda>n. write_json (history_entry n)) (drop 1 [1..<102])"
    unfolding last_n_def m by (simp only: drop_map)
  also have "drop 1 [1..<102] = [2..<102]"
    by (simp only: drop_upt one_add_one)
  finally have l: "last_n 100 (map snd history_steps)
                     = map (\<lambda>n. write_json (history_entry n)) [2..<102]" .
  from C4_history_capped [OF round_trip_mini_json p n, of Map.empty history_key] c l
  show ?thesis by auto
qed

text \<open>
  C8 as the code has it. For a key that holds a list, \<^verbatim>\<open>lTrim(key, start, -1)\<close> keeps
  the elements from index \<open>start\<close> to the end, a negative \<open>start\<close> counting from the end
  and both clamped to the list: this is the whole list exactly when the list is empty,
  \<open>start\<close> is 0, or \<open>start\<close> reaches back to its first element or beyond. The entry is
  written anew in either case, with the serialization of the kept elements and an expiry
  thirty days ahead; reading the key afterwards returns the kept elements.
\<close>

theorem C8_trim_to_end:
  assumes "st key = Some e" and "JSON_parse J (payload e) = Some (JArray arr)"
  shows "lTrim J st now key start (- 1)
           = st(key \<mapsto> \<lparr>payload = JSON_stringify J (JArray (slice arr start None)),
                        expires = now + thirty_days\<rparr>)
         \<and> slice arr start None
             = drop (nat (if start < 0 then max (int (length arr) + start) 0
                          else min start (int (length arr)))) arr
         \<and> (slice arr start None = arr
              \<longleftrightarrow> arr = [] \<or> start = 0 \<or> int (length arr) + start \<le> 0)
         \<and> (round_trip J \<longrightarrow>
              lRange J (lTrim J st now key start (- 1)) key 0 (- 1)
                = map (JSON_stringify J) (slice arr start None))"
proof (intro conjI impI)
  show t: "lTrim J st now key start (- 1)
           = st(key \<mapsto> \<lparr>payload = JSON_stringify J (JArray (slice arr start None)),
                        expires = now + thirty_days\<rparr>)"
    using assms by (simp add: lTrim_def)
  show "slice arr start None
             = drop (nat (if start < 0 then max (int (length arr) + start) 0
                          else min start (int (length arr)))) arr"
    by (rule slice_to_end)
  have k: "drop n arr = arr \<longleftrightarrow> arr = [] \<or> n = 0" for n
  proof
    assume "drop n arr = arr"
    then have "length (drop n arr) = length arr" by simp
    then show "arr = [] \<or> n = 0" by (cases arr) auto
  qed auto
  show "slice arr start None = arr
          \<longleftrightarrow> arr = [] \<or> start = 0 \<or> int (length arr) + start \<le> 0"
    unfolding slice_to_end k by (cases arr) auto
  show "lRange J (lTrim J st now key start (- 1)) key 0 (- 1)
          = map (JSON_stringify J) (slice arr start None)" if "round_trip J"
    unfolding t by (simp only: lRange_written [OF that] slice_whole)
qed

theorem C8_witness:
  "lTrim mini_json two_numbers 7 ''h'' 1 (- 1)
     = two_numbers(''h'' \<mapsto> \<lparr>payload = ''[2]'', expires = 7 + thirty_days\<rparr>)
   \<and> lRange mini_json (lTrim mini_json two_numbers 7 ''h'' 0 (- 1)) ''h'' 0 (- 1)
       = [''1'', ''2'']
   \<and> lRange mini_json (lTrim mini_json two_numbers 7 ''h'' (- 1) (- 1)) ''h'' 0 (- 1) = [''2'']"
proof -
  have a: "two_numbers ''h'' = Some \<lparr>payload = ''[1,2]'', expires = 0\<rparr>"
    by (simp add: two_numbers_def)
  have b: "JSON_parse mini_json (payload \<lparr>payload = ''[1,2]'', expires = 0\<rparr>)
             = Some (JArray [JNumber 1, JNumber 2])"
    unfolding mini_json_def by code_simp
  have w: "JSON_stringify mini_json (JArray [JNumber 2]) = ''[2]''"
    "JSON_stringify mini_json (JNumber 1) = ''1''" "JSON_stringify mini_json (JNumber 2) = ''2''"
    unfolding mini_json_def by code_simp+
  have s: "slice [JNumber 1, JNumber 2] 1 None = [JNumber 2]"
    "slice [JNumber 1, JNumber 2] 0 None = [JNumber 1, JNumber 2]"
    "slice [JNumber 1, JNumber 2] (- 1) None = [JNumber 2]"
    by (simp_all add: slice_def)
  have m: "map (JSON_stringify mini_json) [JNumber 2] = [''2'']"
    "map (JSON_stringify mini_json) [JNumber 1, JNumber 2] = [''1'', ''2'']"
    by (simp_all add: w)
  from C8_trim_to_end [where st = two_numbers and key = "''h''" and now = 7 and start = 1,
         OF a b, unfolded s w m]
       C8_trim_to_end [where st = two_numbers and key = "''h''" and now = 7 and start = 0,
         OF a b, unfolded s w m]
       C8_trim_to_end [where st = two_numbers and key = "''h''" and now = 7 and start = "- 1",
         OF a b, unfolded s w m]
       round_trip_mini_json
  show ?thesis by blast
qed

text \<open>
  The claim as worded speaks of every start index. On the list of 1 and 2, the call with
  \<open>start = 1\<close> drops the first element, and the store is not what it was.
\<close>

theorem C8_counterexample:
  "two_numbers ''h'' = Some \<lparr>payload = ''[1,2]'', expires = 0\<rparr>
   \<and> JSON_parse mini_json ''[1,2]'' = Some (JArray [JNumber 1, JNumber 2])
   \<and> lRange mini_json two_numbers ''h'' 0 (- 1) = [''1'', ''2'']
   \<and> lRange mini_json (lTrim mini_json two_numbers 7 ''h'' 1 (- 1)) ''h'' 0 (- 1) = [''2'']
   \<and> lTrim mini_json two_numbers 7 ''h'' 1 (- 1) \<noteq> two_numbers"
proof -
  have a: "two_numbers ''h'' = Some \<lparr>payload = ''[1,2]'', expires = 0\<rparr>"
    by (simp add: two_numbers_def)
  have b: "JSON_parse mini_json ''[1,2]'' = Some (JArray [JNumber 1, JNumber 2])"
    "JSON_parse mini_json ''[2]'' = Some (JArray [JNumber 2])"
    unfolding mini_json_def by code_simp+
  have w: "JSON_stringify mini_json (JArray [JNumber 2]) = ''[2]''"
    "JSON_stringify mini_json (JNumber 1) = ''1''" "JSON_stringify mini_json (JNumber 2) = ''2''"
    unfolding mini_json_def by code_simp+
  have s: "slice [JNumber 1, JNumber 2] 1 None = [JNumber 2]"
    "slice [JNumber 1, JNumber 2] 0 None = [JNumber 1, JNumber 2]"
    "slice [JNumber 2] 0 None = [JNumber 2]"
    by (simp_all add: slice_def)
  have c: "lRange mini_json two_numbers ''h'' 0 (- 1) = [''1'', ''2'']"
    by (simp add: lRange_def a b s w)
  have t: "lTrim mini_json two_numbers 7 ''h'' 1 (- 1)
             = two_numbers(''h'' \<mapsto> \<lparr>payload = ''[2]'', expires = 7 + thirty_days\<rparr>)"
    by (simp add: lTrim_def a b s w)
  have d: "lRange mini_json (lTrim mini_json two_numbers 7 ''h'' 1 (- 1)) ''h'' 0 (- 1) = [''2'']"
    unfolding t by (simp add: lRange_def b s w)
  have "(lTrim mini_json two_numbers 7 ''h'' 1 (- 1)) ''h'' \<noteq> two_numbers ''h''"
    unfolding t by (simp add: a)
  then have e: "lTrim mini_json two_numbers 7 ''h'' 1 (- 1) \<noteq> two_numbers" by auto
  from a b(1) c d e show ?thesis by simp
qed

text \<open>
  C10. \<^verbatim>\<open>rPush\<close> throws a \<^verbatim>\<open>SyntaxError\<close> when its value is not valid JSON text.
  When it is, \<^verbatim>\<open>rPush\<close> returns, having written under the key the stored list with the
  parsed value at its end; the stored list is empty when the key is absent, when its text
  does not parse, and when it parses to something other than an array.
\<close>

theorem C10_rPush_throws_only_on_bad_value:
  "(JSON_parse J v = None \<longrightarrow> rPush J st now key v = Inl SyntaxError)
   \<and> (JSON_parse J v = Some j \<longrightarrow>
        rPush J st now key v =
          Inr (st(key \<mapsto> \<lparr>payload = JSON_stringify J (JArray (stored_array J st key @ [j])),
                         expires = now + thirty_days\<rparr>)))
   \<and> (st key = None \<longrightarrow> stored_array J st key = [])
   \<and> (st key = Some e \<and> JSON_parse J (payload e) = None \<longrightarrow> stored_array J st key = [])
   \<and> (st key = Some e \<and> JSON_parse J (payload e) = Some other \<and> (\<forall>arr. other \<noteq> JArray arr)
        \<longrightarrow> stored_array J st key = [])
   \<and> (st key = Some e \<and> JSON_parse J (payload e) = Some (JArray arr)
        \<longrightarrow> stored_array J st key = arr)"
  by (auto simp: rPush_def stored_array_def split: json.splits)

theorem C10_witness:
  "rPush mini_json Map.empty 7 ''h'' ''not json'' = Inl SyntaxError
   \<and> rPush mini_json Map.empty 7 ''h'' ''3''
       = Inr (Map.empty(''h'' \<mapsto> \<lparr>payload = ''[3]'', expires = 7 + thirty_days\<rparr>))
   \<and> rPush mini_json (Map.empty(''h'' \<mapsto> \<lparr>payload = ''garbled'', expires = 0\<rparr>)) 7 ''h'' ''3''
       = Inr (Map.empty(''h'' \<mapsto> \<lparr>payload = ''[3]'', expires = 7 + thirty_days\<rparr>))
   \<and> rPush mini_json (Map.empty(''h'' \<mapsto> \<lparr>payload = ''{}'', expires = 0\<rparr>)) 7 ''h'' ''3''
       = Inr (Map.empty(''h'' \<mapsto> \<lparr>payload = ''[3]'', expires = 7 + thirty_days\<rparr>))
   \<and> rPush mini_json two_numbers 7 ''h'' ''3''
       = Inr (two_numbers(''h'' \<mapsto> \<lparr>payload = ''[1,2,3]'', expires = 7 + thirty_days\<rparr>))"
proof -
  have p: "JSON_parse mini_json ''not json'' = None"
    "JSON_parse mini_json ''3'' = Some (JNumber 3)"
    "JSON_parse mini_json ''garbled'' = None"
    "JSON_parse mini_json ''{}'' = Some (JObject [])"
    "JSON_parse mini_json ''[1,2]'' = Some (JArray [JNumber 1, JNumber 2])"
    unfolding mini_json_def by code_simp+
  have w: "JSON_stringify mini_json (JArray [JNumber 3]) = ''[3]''"
    "JSON_stringify mini_json (JArray [JNumber 1, JNumber 2, JNumber 3]) = ''[1,2,3]''"
    unfolding mini_json_def by code_simp+
  let ?bad = "Map.empty(''h'' \<mapsto> \<lparr>payload = ''garbled'', expires = 0\<rparr>)"
  let ?obj = "Map.empty(''h'' \<mapsto> \<lparr>payload = ''{}'', expires = 0\<rparr>)"
  from C10_rPush_throws_only_on_bad_value
         [where J = mini_json and st = Map.empty and now = 7 and key = "''h''"
            and v = "''not json''"]
       C10_rPush_throws_only_on_bad_value
         [where J = mini_json and st = Map.empty and now = 7 and key = "''h''"
            and v = "''3''" and j = "JNumber 3"]
       C10_rPush_throws_only_on_bad_value
         [where J = mini_json and st = ?bad and now = 7 and key = "''h''"
            and v = "''3''" and j = "JNumber 3" and e = "\<lparr>payload = ''garbled'', expires = 0\<rparr>"]
       C10_rPush_throws_only_on_bad_value
         [where J = mini_json and st = ?obj and now = 7 and key = "''h''"
            and v = "''3''" and j = "JNumber 3" and e = "\<lparr>payload = ''{}'', expires = 0\<rparr>"
            and other = "JObject []"]
       C10_rPush_throws_only_on_bad_value
         [where J = mini_json and st = two_numbers and now = 7 and key = "''h''"
            and v = "''3''" and j = "JNumber 3" and e = "\<lparr>payload = ''[1,2]'', expires = 0\<rparr>"
            and arr = "[JNumber 1, JNumber 2]"]
       p w
  show ?thesis by (simp add: two_numbers_def)
qed

end
